theory Spec2Isabelle
  imports Main
begin

section \<open>Data model\<close>

text \<open>
  The feed (\<^verbatim>\<open>download_stock\<close>) is a list of dictionaries read from a spreadsheet.
  The program reads three keys of each dictionary, written in Cyrillic in the source:
  the identifier, the raw quantity and the raw price. They are the fields \<open>Kod\<close>,
  \<open>Kolichestvo\<close> and \<open>Tsena\<close> below (the keys, transliterated). All three hold
  strings, as in the docstrings of \<^verbatim>\<open>download_stock\<close> and \<^verbatim>\<open>create_stocks\<close>, so
  \<^verbatim>\<open>str(watch.get(k))\<close> is the field itself. A string of the model is the UTF-8
  encoding of the Python string.
\<close>

record watch =
  Kod :: string
  Kolichestvo :: string
  Tsena :: string

text \<open>Python exceptions raised by the modelled code.\<close>

datatype error = ValueError

text \<open>Entries of the Ozon payloads (\<^verbatim>\<open>seller.py\<close>).\<close>

record ozon_stock =
  s_offer_id :: string
  s_stock :: int

record ozon_price =
  p_auto_action_enabled :: string
  p_currency_code :: string
  p_offer_id :: string
  p_old_price :: string
  p_price :: string

text \<open>Entries of the Yandex Market payloads (\<^verbatim>\<open>market.py\<close>).\<close>

record market_item =
  i_count :: int
  i_type :: string
  i_updatedAt :: string

record market_stock =
  m_sku :: string
  m_warehouseId :: string
  m_items :: "market_item list"

record market_price_value =
  v_value :: int
  v_currencyId :: string

record market_price =
  mp_id :: string
  mp_price :: market_price_value

section \<open>Python's \<^verbatim>\<open>int(str)\<close>\<close>

text \<open>The ten ASCII digits and their values.\<close>

definition is_digit :: "char \<Rightarrow> bool" where
  "is_digit c = (c \<in> set ''0123456789'')"

definition digit_val :: "char \<Rightarrow> nat" where
  "digit_val c = of_char c - 48"

text \<open>
  A Python string is a sequence of Unicode code points; a \<open>string\<close> of the model is
  its UTF-8 encoding. \<open>utf8_decode\<close> gives the code points back. A byte that starts no
  well-formed sequence encodes no character of any Python string; it is decoded to
  \<open>no_character\<close>, a value above every code point.
\<close>

definition no_character :: nat where
  "no_character = 0x110000"

definition continuation :: "nat \<Rightarrow> bool" where
  "continuation b = (0x80 \<le> b \<and> b \<le> 0xBF)"

fun utf8_decode :: "nat list \<Rightarrow> nat list" where
  "utf8_decode [] = []"
| "utf8_decode (b # bs) =
     (if b < 0x80 then b # utf8_decode bs
      else if 0xC2 \<le> b \<and> b \<le> 0xDF then
        (case bs of
           c # r \<Rightarrow>
             if continuation c then ((b - 0xC0) * 64 + (c - 0x80)) # utf8_decode r
             else no_character # utf8_decode bs
         | _ \<Rightarrow> no_character # utf8_decode bs)
      else if 0xE0 \<le> b \<and> b \<le> 0xEF then
        (case bs of
           c # d # r \<Rightarrow>
             if continuation c \<and> continuation d
             then ((b - 0xE0) * 4096 + (c - 0x80) * 64 + (d - 0x80)) # utf8_decode r
             else no_character # utf8_decode bs
         | _ \<Rightarrow> no_character # utf8_decode bs)
      else if 0xF0 \<le> b \<and> b \<le> 0xF4 then
        (case bs of
           c # d # e # r \<Rightarrow>
             if continuation c \<and> continuation d \<and> continuation e
             then ((b - 0xF0) * 262144 + (c - 0x80) * 4096 + (d - 0x80) * 64 + (e - 0x80))
                    # utf8_decode r
             else no_character # utf8_decode bs
         | _ \<Rightarrow> no_character # utf8_decode bs)
      else no_character # utf8_decode bs)"

definition code_points :: "string \<Rightarrow> nat list" where
  "code_points s = utf8_decode (map of_char s)"

text \<open>
  The character tables \<^verbatim>\<open>int\<close> consults, as CPython 3.11 has them (Unicode 14.0).
  \<open>unicode_space\<close> is the white space above ASCII. The decimal digits of every script
  come in runs of ten consecutive code points with the values 0 to 9;
  \<open>decimal_runs\<close> lists the first code point of each run above ASCII.
\<close>

definition unicode_space :: "nat \<Rightarrow> bool" where
  "unicode_space cp =
     (cp = 0x85 \<or> cp = 0xA0 \<or> cp = 0x1680 \<or> (0x2000 \<le> cp \<and> cp \<le> 0x200A) \<or>
      cp = 0x2028 \<or> cp = 0x2029 \<or> cp = 0x202F \<or> cp = 0x205F \<or> cp = 0x3000)"

definition decimal_runs :: "nat list" where
  "decimal_runs =
    [0x660, 0x6F0, 0x7C0, 0x966, 0x9E6, 0xA66, 0xAE6, 0xB66, 0xBE6, 0xC66, 0xCE6, 0xD66,
     0xDE6, 0xE50, 0xED0, 0xF20, 0x1040, 0x1090, 0x17E0, 0x1810, 0x1946, 0x19D0, 0x1A80,
     0x1A90, 0x1B50, 0x1BB0, 0x1C40, 0x1C50, 0xA620, 0xA8D0, 0xA900, 0xA9D0, 0xA9F0,
     0xAA50, 0xABF0, 0xFF10, 0x104A0, 0x10D30, 0x11066, 0x110F0, 0x11136, 0x111D0, 0x112F0,
     0x11450, 0x114D0, 0x11650, 0x116C0, 0x11730, 0x118E0, 0x11950, 0x11C50, 0x11D50,
     0x11DA0, 0x16A60, 0x16AC0, 0x16B50, 0x1D7CE, 0x1D7D8, 0x1D7E2, 0x1D7EC, 0x1D7F6,
     0x1E140, 0x1E2F0, 0x1E950, 0x1FBF0]"

definition unicode_decimal :: "nat \<Rightarrow> nat option" where
  "unicode_decimal cp =
     (case find (\<lambda>s. s \<le> cp \<and> cp < s + 10) decimal_runs of
        None \<Rightarrow> None
      | Some s \<Rightarrow> Some (cp - s))"

text \<open>
  What a character is to \<^verbatim>\<open>int\<close>. Below 127 only the ASCII white space, digits,
  signs and the underscore count; from 127 on a character counts as a space or as a
  digit when the tables say so, and is rejected otherwise.
\<close>

datatype sym = Space | Digit nat | Plus | Minus | Underscore | Other

definition classify :: "nat \<Rightarrow> sym" where
  "classify cp =
     (if cp < 127 then
        (if cp = 0x20 \<or> (0x09 \<le> cp \<and> cp \<le> 0x0D) then Space
         else if 0x30 \<le> cp \<and> cp \<le> 0x39 then Digit (cp - 0x30)
         else if cp = 0x2B then Plus
         else if cp = 0x2D then Minus
         else if cp = 0x5F then Underscore
         else Other)
      else if unicode_space cp then Space
      else (case unicode_decimal cp of None \<Rightarrow> Other | Some d \<Rightarrow> Digit d))"

definition symbols :: "string \<Rightarrow> sym list" where
  "symbols s = map classify (code_points s)"

text \<open>
  \<^verbatim>\<open>int(s)\<close> in base 10: white space at both ends is skipped, one sign is allowed,
  then come the digits, at least one, with single underscores allowed between two
  digits. A numeral of more than \<open>max_str_digits\<close> digits is refused (the default of
  \<^verbatim>\<open>sys.int_max_str_digits\<close>). Every refusal is a \<^verbatim>\<open>ValueError\<close>, the result \<open>None\<close>.
\<close>

definition max_str_digits :: nat where
  "max_str_digits = 4300"

definition strip_spaces :: "sym list \<Rightarrow> sym list" where
  "strip_spaces xs = rev (dropWhile (\<lambda>x. x = Space) (rev (dropWhile (\<lambda>x. x = Space) xs)))"

fun is_Digit :: "sym \<Rightarrow> bool" where
  "is_Digit (Digit d) = True"
| "is_Digit _ = False"

fun int_body :: "nat \<Rightarrow> sym list \<Rightarrow> nat option" where
  "int_body acc [] = Some acc"
| "int_body acc (Digit d # xs) = int_body (10 * acc + d) xs"
| "int_body acc (Underscore # Digit d # xs) = int_body (10 * acc + d) xs"
| "int_body acc _ = None"

definition unsigned_int :: "sym list \<Rightarrow> nat option" where
  "unsigned_int u =
     (case u of
        Digit d # xs \<Rightarrow>
          (case int_body d xs of
             None \<Rightarrow> None
           | Some n \<Rightarrow> if max_str_digits < length (filter is_Digit u) then None else Some n)
      | _ \<Rightarrow> None)"

definition py_int :: "string \<Rightarrow> int option" where
  "py_int s =
     (case strip_spaces (symbols s) of
        [] \<Rightarrow> None
      | x # r \<Rightarrow>
          if x = Minus then map_option (\<lambda>n. - int n) (unsigned_int r)
          else if x = Plus then map_option int (unsigned_int r)
          else map_option int (unsigned_int (x # r)))"

text \<open>
  The value of a string of decimal digits, read from the left; it is used to state what
  \<open>py_int\<close> returns on a plain numeral and is not part of the program.
\<close>

definition decimal :: "string \<Rightarrow> nat" where
  "decimal ds = foldl (\<lambda>a c. 10 * a + digit_val c) 0 ds"

text \<open>
  The integer literals of Python, stated on their own: a token is a literal with value
  \<open>v\<close> when its characters are white space, then at most one sign, then a numeral, then
  white space. A numeral is a non-empty run of digits and underscores that begins and
  ends with a digit, has no two underscores in a row and no more than
  \<open>max_str_digits\<close> digits; its value is that of its digits, read from the left.
\<close>

definition numeral :: "sym list \<Rightarrow> bool" where
  "numeral body =
     (body \<noteq> [] \<and> list_all (\<lambda>x. x = Underscore \<or> is_Digit x) body \<and>
      hd body \<noteq> Underscore \<and> last body \<noteq> Underscore \<and>
      (Underscore, Underscore) \<notin> set (zip body (tl body)) \<and>
      length (filter is_Digit body) \<le> max_str_digits)"

definition numeral_value :: "sym list \<Rightarrow> nat" where
  "numeral_value body = foldl (\<lambda>a x. case x of Digit d \<Rightarrow> 10 * a + d | _ \<Rightarrow> a) 0 body"

definition int_literal :: "string \<Rightarrow> int \<Rightarrow> bool" where
  "int_literal tok v =
     (\<exists>l sg body r.
        symbols tok = l @ sg @ body @ r \<and>
        list_all (\<lambda>x. x = Space) l \<and> list_all (\<lambda>x. x = Space) r \<and>
        (sg = [] \<or> sg = [Plus] \<or> sg = [Minus]) \<and> numeral body \<and>
        v = (if sg = [Minus] then - int (numeral_value body) else int (numeral_value body)))"

section \<open>Quantity normalisation and stock reconciliation (\<^verbatim>\<open>create_stocks\<close>)\<close>

text \<open>
  The \<^verbatim>\<open>if count == ">10" ... elif count == "1" ... else int(...)\<close> chain inside the
  loop of \<^verbatim>\<open>create_stocks\<close>, the same in both files.
\<close>

definition normalize_count :: "string \<Rightarrow> error + int" where
  "normalize_count count =
     (if count = ''>10'' then Inr 100
      else if count = ''1'' then Inr 0
      else case py_int count of None \<Rightarrow> Inl ValueError | Some n \<Rightarrow> Inr n)"

text \<open>
  \<^verbatim>\<open>seller.create_stocks\<close>. The list \<open>offer_ids\<close> is mutated by the function, so
  the model returns it next to the result: the first component is the returned list or
  the exception raised, the second the contents of \<open>offer_ids\<close> when the call ends.
  \<open>seller_stocks_loop\<close> is the first \<^verbatim>\<open>for\<close> loop; \<^verbatim>\<open>x in offer_ids\<close> is list
  membership and \<^verbatim>\<open>offer_ids.remove(x)\<close> deletes the first occurrence.
\<close>

fun seller_stocks_loop ::
  "watch list \<Rightarrow> string list \<Rightarrow> ozon_stock list \<Rightarrow> (error + ozon_stock list) \<times> string list" where
  "seller_stocks_loop [] offer_ids stocks = (Inr stocks, offer_ids)"
| "seller_stocks_loop (w # ws) offer_ids stocks =
     (if Kod w \<in> set offer_ids then
        (case normalize_count (Kolichestvo w) of
           Inl e \<Rightarrow> (Inl e, offer_ids)
         | Inr stock \<Rightarrow>
             seller_stocks_loop ws (remove1 (Kod w) offer_ids)
               (stocks @ [\<lparr>s_offer_id = Kod w, s_stock = stock\<rparr>]))
      else seller_stocks_loop ws offer_ids stocks)"

definition seller_create_stocks ::
  "watch list \<Rightarrow> string list \<Rightarrow> (error + ozon_stock list) \<times> string list" where
  "seller_create_stocks watch_remnants offer_ids =
     (case seller_stocks_loop watch_remnants offer_ids [] of
        (Inl e, ids) \<Rightarrow> (Inl e, ids)
      | (Inr stocks, ids) \<Rightarrow>
          (Inr (stocks @ map (\<lambda>offer_id. \<lparr>s_offer_id = offer_id, s_stock = 0\<rparr>) ids), ids))"


text \<open>
  \<^verbatim>\<open>market.create_stocks\<close>: the same two loops, building the warehouse-scoped entry.
  \<open>date\<close> is the string computed from \<^verbatim>\<open>datetime.datetime.utcnow()\<close> at the start of
  the call; the clock is an input of the model.
\<close>

fun market_stocks_loop ::
  "string \<Rightarrow> string \<Rightarrow> watch list \<Rightarrow> string list \<Rightarrow> market_stock list
     \<Rightarrow> (error + market_stock list) \<times> string list" where
  "market_stocks_loop date warehouse_id [] offer_ids stocks = (Inr stocks, offer_ids)"
| "market_stocks_loop date warehouse_id (w # ws) offer_ids stocks =
     (if Kod w \<in> set offer_ids then
        (case normalize_count (Kolichestvo w) of
           Inl e \<Rightarrow> (Inl e, offer_ids)
         | Inr stock \<Rightarrow>
             market_stocks_loop date warehouse_id ws (remove1 (Kod w) offer_ids)
               (stocks @
                [\<lparr>m_sku = Kod w, m_warehouseId = warehouse_id,
                  m_items = [\<lparr>i_count = stock, i_type = ''FIT'', i_updatedAt = date\<rparr>]\<rparr>]))
      else market_stocks_loop date warehouse_id ws offer_ids stocks)"

definition market_create_stocks ::
  "string \<Rightarrow> watch list \<Rightarrow> string list \<Rightarrow> string
     \<Rightarrow> (error + market_stock list) \<times> string list" where
  "market_create_stocks date watch_remnants offer_ids warehouse_id =
     (case market_stocks_loop date warehouse_id watch_remnants offer_ids [] of
        (Inl e, ids) \<Rightarrow> (Inl e, ids)
      | (Inr stocks, ids) \<Rightarrow>
          (Inr (stocks @
                map (\<lambda>offer_id.
                       \<lparr>m_sku = offer_id, m_warehouseId = warehouse_id,
                        m_items = [\<lparr>i_count = 0, i_type = ''FIT'', i_updatedAt = date\<rparr>]\<rparr>) ids),
           ids))"

section \<open>Prices (\<^verbatim>\<open>price_conversion\<close>, \<^verbatim>\<open>create_prices\<close>)\<close>

text \<open>
  \<^verbatim>\<open>re.sub("[^0-9]", "", price.split(".")[0])\<close>: the part before the first full stop
  (the whole string when there is none), with every character other than the ten ASCII
  digits deleted. The result is a string.
\<close>

definition price_conversion :: "string \<Rightarrow> string" where
  "price_conversion price = filter is_digit (takeWhile (\<lambda>c. c \<noteq> CHR ''.'') price)"

text \<open>
  \<^verbatim>\<open>seller.create_prices\<close>. The loop is written with the list \<open>offer_ids\<close> threaded
  through it, as for the stocks, so that what the call does to the list is part of the
  model; the source has no statement that changes it.
\<close>

fun seller_prices_loop ::
  "watch list \<Rightarrow> string list \<Rightarrow> ozon_price list \<Rightarrow> ozon_price list \<times> string list" where
  "seller_prices_loop [] offer_ids prices = (prices, offer_ids)"
| "seller_prices_loop (w # ws) offer_ids prices =
     (if Kod w \<in> set offer_ids then
        seller_prices_loop ws offer_ids
          (prices @
           [\<lparr>p_auto_action_enabled = ''UNKNOWN'', p_currency_code = ''RUB'',
             p_offer_id = Kod w, p_old_price = ''0'',
             p_price = price_conversion (Tsena w)\<rparr>])
      else seller_prices_loop ws offer_ids prices)"

definition seller_create_prices ::
  "watch list \<Rightarrow> string list \<Rightarrow> ozon_price list \<times> string list" where
  "seller_create_prices watch_remnants offer_ids = seller_prices_loop watch_remnants offer_ids []"

text \<open>
  \<^verbatim>\<open>market.create_prices\<close>: the price is \<^verbatim>\<open>int(price_conversion(...))\<close>, which raises
  \<^verbatim>\<open>ValueError\<close> when the conversion leaves no digit.
\<close>

fun market_prices_loop ::
  "watch list \<Rightarrow> string list \<Rightarrow> market_price list
     \<Rightarrow> (error + market_price list) \<times> string list" where
  "market_prices_loop [] offer_ids prices = (Inr prices, offer_ids)"
| "market_prices_loop (w # ws) offer_ids prices =
     (if Kod w \<in> set offer_ids then
        (case py_int (price_conversion (Tsena w)) of
           None \<Rightarrow> (Inl ValueError, offer_ids)
         | Some v \<Rightarrow>
             market_prices_loop ws offer_ids
               (prices @
                [\<lparr>mp_id = Kod w, mp_price = \<lparr>v_value = v, v_currencyId = ''RUR''\<rparr>\<rparr>]))
      else market_prices_loop ws offer_ids prices)"

definition market_create_prices ::
  "watch list \<Rightarrow> string list \<Rightarrow> (error + market_price list) \<times> string list" where
  "market_create_prices watch_remnants offer_ids = market_prices_loop watch_remnants offer_ids []"

section \<open>Chunking (\<^verbatim>\<open>divide\<close>)\<close>

text \<open>
  \<^verbatim>\<open>for i in range(0, len(lst), n): yield lst[i : i + n]\<close>. Every caller wraps the
  generator in \<^verbatim>\<open>list(...)\<close>, and \<open>divide\<close> is that list. \<^verbatim>\<open>range\<close> raises
  \<^verbatim>\<open>ValueError\<close> for a step of zero and is empty for a negative step (its start 0 is
  not above its stop \<^verbatim>\<open>len(lst)\<close>). \<open>slices\<close> is the loop for a positive step, \<open>i\<close>
  the loop variable.
\<close>

function slices :: "'a list \<Rightarrow> nat \<Rightarrow> nat \<Rightarrow> 'a list list" where
  "slices lst n i =
     (if 0 < n \<and> i < length lst then take n (drop i lst) # slices lst n (i + n) else [])"
  by pat_completeness auto
termination
  by (relation "measure (\<lambda>(lst, n, i). length lst - i)") auto

declare slices.simps [simp del]

definition divide :: "'a list \<Rightarrow> int \<Rightarrow> error + 'a list list" where
  "divide lst n =
     (if n = 0 then Inl ValueError
      else if n < 0 then Inr []
      else Inr (slices lst (nat n) 0))"

section \<open>Pagination (\<^verbatim>\<open>get_offer_ids\<close>)\<close>

text \<open>
  A page as \<^verbatim>\<open>get_product_list\<close> returns it. Of each listed product the program reads
  one field, its identifier (\<^verbatim>\<open>offer_id\<close> for Ozon, \<^verbatim>\<open>offer.shopSku\<close> for Yandex
  Market), so a page holds the identifiers of its products. A well-formed Ozon page
  has \<^verbatim>\<open>items\<close>, \<^verbatim>\<open>total\<close> and \<^verbatim>\<open>last_id\<close>; a well-formed Yandex Market page has
  \<^verbatim>\<open>offerMappingEntries\<close> and \<^verbatim>\<open>paging\<close>, whose \<^verbatim>\<open>nextPageToken\<close> may be absent
  (\<open>None\<close>).
\<close>

record ozon_page =
  o_items :: "string list"
  o_total :: int
  o_last_id :: string

record market_page =
  y_offerMappingEntries :: "string list"
  y_nextPageToken :: "string option"

text \<open>
  The remote side is the function \<open>get_product_list\<close>: its reply to the \<open>k\<close>-th
  request of a call, given the cursor sent with it. The \<^verbatim>\<open>while True\<close> loops may run
  forever, so they are partial functions: \<open>None\<close> is a loop that never ends.
\<close>

type_synonym seller_remote = "nat \<Rightarrow> string \<Rightarrow> ozon_page"
type_synonym market_remote = "nat \<Rightarrow> string \<Rightarrow> market_page"

partial_function (option) seller_pages ::
  "seller_remote \<Rightarrow> nat \<Rightarrow> string \<Rightarrow> string list \<Rightarrow> string list option" where
  "seller_pages get_product_list k last_id product_list =
     (let some_prod = get_product_list k last_id;
          product_list' = product_list @ o_items some_prod
      in if o_total some_prod = int (length product_list') then Some product_list'
         else seller_pages get_product_list (Suc k) (o_last_id some_prod) product_list')"

definition seller_get_offer_ids :: "seller_remote \<Rightarrow> string list option" where
  "seller_get_offer_ids get_product_list = seller_pages get_product_list 0 [] []"

partial_function (option) market_pages ::
  "market_remote \<Rightarrow> nat \<Rightarrow> string \<Rightarrow> string list \<Rightarrow> string list option" where
  "market_pages get_product_list k page product_list =
     (let some_prod = get_product_list k page;
          product_list' = product_list @ y_offerMappingEntries some_prod
      in case y_nextPageToken some_prod of
           None \<Rightarrow> Some product_list'
         | Some page' \<Rightarrow>
             if page' = [] then Some product_list'
             else market_pages get_product_list (Suc k) page' product_list')"

definition market_get_offer_ids :: "market_remote \<Rightarrow> string list option" where
  "market_get_offer_ids get_product_list = market_pages get_product_list 0 [] []"

text \<open>
  The page sequence a remote side produces when it is asked as the loops ask it: the
  cursor of request \<open>k\<close> and the reply to it. These describe the environment; the loops
  above do not use them.
\<close>

primrec seller_cursor :: "seller_remote \<Rightarrow> nat \<Rightarrow> string" where
  "seller_cursor r 0 = []"
| "seller_cursor r (Suc k) = o_last_id (r k (seller_cursor r k))"

definition seller_reply :: "seller_remote \<Rightarrow> nat \<Rightarrow> ozon_page" where
  "seller_reply r k = r k (seller_cursor r k)"

definition seller_seen :: "seller_remote \<Rightarrow> nat \<Rightarrow> string list" where
  "seller_seen r k = concat (map (\<lambda>j. o_items (seller_reply r j)) [0..<k])"

definition seller_total_reached :: "seller_remote \<Rightarrow> nat \<Rightarrow> bool" where
  "seller_total_reached r k = (o_total (seller_reply r k) = int (length (seller_seen r (Suc k))))"

primrec market_cursor :: "market_remote \<Rightarrow> nat \<Rightarrow> string" where
  "market_cursor r 0 = []"
| "market_cursor r (Suc k) =
     (case y_nextPageToken (r k (market_cursor r k)) of None \<Rightarrow> [] | Some t \<Rightarrow> t)"

definition market_reply :: "market_remote \<Rightarrow> nat \<Rightarrow> market_page" where
  "market_reply r k = r k (market_cursor r k)"

definition market_seen :: "market_remote \<Rightarrow> nat \<Rightarrow> string list" where
  "market_seen r k = concat (map (\<lambda>j. y_offerMappingEntries (market_reply r j)) [0..<k])"

definition market_token_empty :: "market_remote \<Rightarrow> nat \<Rightarrow> bool" where
  "market_token_empty r k =
     (y_nextPageToken (market_reply r k) = None \<or> y_nextPageToken (market_reply r k) = Some [])"

section \<open>Dispatch and orchestration (\<^verbatim>\<open>upload_*\<close>, \<^verbatim>\<open>main\<close>)\<close>

text \<open>
  The update calls are the program's output. A run is modelled by the list of update
  requests it issues, in order. \<open>ok\<close> tells whether a request succeeds; a request
  that fails raises, which ends the \<^verbatim>\<open>for\<close> loop and everything after it.
  \<open>send_all\<close> is the loop \<^verbatim>\<open>for batch in batches: update(batch)\<close>: the requests
  issued and whether all of them succeeded.
\<close>

datatype seller_request = Seller_update_stocks "ozon_stock list" | Seller_update_price "ozon_price list"

datatype market_request = Market_update_stocks "market_stock list" | Market_update_price "market_price list"

fun send_all :: "('r \<Rightarrow> bool) \<Rightarrow> 'r list \<Rightarrow> 'r list \<times> bool" where
  "send_all ok [] = ([], True)"
| "send_all ok (r # rs) =
     (if ok r then (case send_all ok rs of (sent, fin) \<Rightarrow> (r # sent, fin)) else ([r], False))"

text \<open>
  The body of the \<^verbatim>\<open>try\<close> block of \<^verbatim>\<open>seller.main\<close> from \<^verbatim>\<open>create_stocks\<close> on, given
  the list \<open>offer_ids\<close> that \<^verbatim>\<open>get_offer_ids\<close> returned and the feed. Any exception
  ends the run (the \<^verbatim>\<open>except\<close> clauses only print). The list passed to
  \<^verbatim>\<open>create_prices\<close> is the object \<^verbatim>\<open>create_stocks\<close> has worked on.
\<close>

definition seller_run :: "(seller_request \<Rightarrow> bool) \<Rightarrow> string list \<Rightarrow> watch list \<Rightarrow> seller_request list" where
  "seller_run ok offer_ids watch_remnants =
     (case seller_create_stocks watch_remnants offer_ids of
        (Inl e, offer_ids') \<Rightarrow> []
      | (Inr stocks, offer_ids') \<Rightarrow>
          (case divide stocks 100 of
             Inl e \<Rightarrow> []
           | Inr some_stocks \<Rightarrow>
               (case send_all ok (map Seller_update_stocks some_stocks) of
                  (sent, False) \<Rightarrow> sent
                | (sent, True) \<Rightarrow>
                    (case seller_create_prices watch_remnants offer_ids' of
                       (prices, offer_ids'') \<Rightarrow>
                         (case divide prices 900 of
                            Inl e \<Rightarrow> sent
                          | Inr some_prices \<Rightarrow>
                              sent @ fst (send_all ok (map Seller_update_price some_prices)))))))"

definition seller_main ::
  "seller_remote \<Rightarrow> (seller_request \<Rightarrow> bool) \<Rightarrow> watch list \<Rightarrow> seller_request list option" where
  "seller_main get_product_list ok watch_remnants =
     (case seller_get_offer_ids get_product_list of
        None \<Rightarrow> None
      | Some offer_ids \<Rightarrow> Some (seller_run ok offer_ids watch_remnants))"

text \<open>
  \<^verbatim>\<open>seller.upload_prices\<close> and \<^verbatim>\<open>seller.upload_stocks\<close>, when awaited: the requests
  they issue. Nothing in the repository calls them.
\<close>

definition seller_upload_prices ::
  "seller_remote \<Rightarrow> (seller_request \<Rightarrow> bool) \<Rightarrow> watch list \<Rightarrow> seller_request list option" where
  "seller_upload_prices get_product_list ok watch_remnants =
     (case seller_get_offer_ids get_product_list of
        None \<Rightarrow> None
      | Some offer_ids \<Rightarrow>
          (case seller_create_prices watch_remnants offer_ids of
             (prices, offer_ids') \<Rightarrow>
               (case divide prices 1000 of
                  Inl e \<Rightarrow> Some []
                | Inr some_prices \<Rightarrow> Some (fst (send_all ok (map Seller_update_price some_prices))))))"

definition seller_upload_stocks ::
  "seller_remote \<Rightarrow> (seller_request \<Rightarrow> bool) \<Rightarrow> watch list \<Rightarrow> seller_request list option" where
  "seller_upload_stocks get_product_list ok watch_remnants =
     (case seller_get_offer_ids get_product_list of
        None \<Rightarrow> None
      | Some offer_ids \<Rightarrow>
          (case seller_create_stocks watch_remnants offer_ids of
             (Inl e, offer_ids') \<Rightarrow> Some []
           | (Inr stocks, offer_ids') \<Rightarrow>
               (case divide stocks 100 of
                  Inl e \<Rightarrow> Some []
                | Inr some_stocks \<Rightarrow> Some (fst (send_all ok (map Seller_update_stocks some_stocks))))))"

text \<open>
  \<^verbatim>\<open>market.upload_prices\<close> and \<^verbatim>\<open>market.upload_stocks\<close>, when awaited.
\<close>

definition market_upload_prices ::
  "market_remote \<Rightarrow> (market_request \<Rightarrow> bool) \<Rightarrow> watch list \<Rightarrow> market_request list option" where
  "market_upload_prices get_product_list ok watch_remnants =
     (case market_get_offer_ids get_product_list of
        None \<Rightarrow> None
      | Some offer_ids \<Rightarrow>
          (case market_create_prices watch_remnants offer_ids of
             (Inl e, offer_ids') \<Rightarrow> Some []
           | (Inr prices, offer_ids') \<Rightarrow>
               (case divide prices 500 of
                  Inl e \<Rightarrow> Some []
                | Inr some_prices \<Rightarrow> Some (fst (send_all ok (map Market_update_price some_prices))))))"

definition market_upload_stocks ::
  "market_remote \<Rightarrow> (market_request \<Rightarrow> bool) \<Rightarrow> string \<Rightarrow> watch list \<Rightarrow> string
     \<Rightarrow> market_request list option" where
  "market_upload_stocks get_product_list ok date watch_remnants warehouse_id =
     (case market_get_offer_ids get_product_list of
        None \<Rightarrow> None
      | Some offer_ids \<Rightarrow>
          (case market_create_stocks date watch_remnants offer_ids warehouse_id of
             (Inl e, offer_ids') \<Rightarrow> Some []
           | (Inr stocks, offer_ids') \<Rightarrow>
               (case divide stocks 2000 of
                  Inl e \<Rightarrow> Some []
                | Inr some_stocks \<Rightarrow> Some (fst (send_all ok (map Market_update_stocks some_stocks))))))"

text \<open>
  \<^verbatim>\<open>market.main\<close> handles the FBS campaign and then the DBS campaign inside one
  \<^verbatim>\<open>try\<close>. \<open>market_campaign\<close> is the code for one campaign, from \<^verbatim>\<open>create_stocks\<close>
  on: the requests issued and whether the run goes on. \<^verbatim>\<open>upload_prices\<close> is declared
  \<^verbatim>\<open>async def\<close> and called without \<^verbatim>\<open>await\<close>: the call builds a coroutine object
  and runs none of its body; the statement discards the object.
\<close>

datatype 'a coroutine = Coroutine "unit \<Rightarrow> 'a"

definition market_campaign ::
  "market_remote \<Rightarrow> (market_request \<Rightarrow> bool) \<Rightarrow> string \<Rightarrow> string list \<Rightarrow> watch list \<Rightarrow> string
     \<Rightarrow> market_request list \<times> bool" where
  "market_campaign get_product_list ok date offer_ids watch_remnants warehouse_id =
     (case market_create_stocks date watch_remnants offer_ids warehouse_id of
        (Inl e, offer_ids') \<Rightarrow> ([], False)
      | (Inr stocks, offer_ids') \<Rightarrow>
          (case divide stocks 2000 of
             Inl e \<Rightarrow> ([], False)
           | Inr some_stocks \<Rightarrow>
               (case send_all ok (map Market_update_stocks some_stocks) of
                  (sent, False) \<Rightarrow> (sent, False)
                | (sent, True) \<Rightarrow>
                    (let _ = Coroutine (\<lambda>_. market_upload_prices get_product_list ok watch_remnants)
                     in (sent, True)))))"

definition market_main ::
  "market_remote \<Rightarrow> market_remote \<Rightarrow> (market_request \<Rightarrow> bool) \<Rightarrow> string \<Rightarrow> string
     \<Rightarrow> watch list \<Rightarrow> string \<Rightarrow> string \<Rightarrow> market_request list option" where
  "market_main fbs_remote dbs_remote ok fbs_date dbs_date watch_remnants warehouse_fbs_id
       warehouse_dbs_id =
     (case market_get_offer_ids fbs_remote of
        None \<Rightarrow> None
      | Some offer_ids \<Rightarrow>
          (case market_campaign fbs_remote ok fbs_date offer_ids watch_remnants warehouse_fbs_id of
             (sent, False) \<Rightarrow> Some sent
           | (sent, True) \<Rightarrow>
               (case market_get_offer_ids dbs_remote of
                  None \<Rightarrow> None
                | Some offer_ids \<Rightarrow>
                    Some (sent @
                          fst (market_campaign dbs_remote ok dbs_date offer_ids watch_remnants
                                 warehouse_dbs_id)))))"

section \<open>Notions used in the statements\<close>

text \<open>The price entry \<^verbatim>\<open>seller.create_prices\<close> builds for a feed record.\<close>

definition ozon_price_entry :: "watch \<Rightarrow> ozon_price" where
  "ozon_price_entry w =
     \<lparr>p_auto_action_enabled = ''UNKNOWN'', p_currency_code = ''RUB'', p_offer_id = Kod w,
      p_old_price = ''0'', p_price = price_conversion (Tsena w)\<rparr>"

text \<open>
  What is left of the identifier list after the first loop of \<^verbatim>\<open>create_stocks\<close> has
  gone through the feed: one occurrence is deleted for each feed record that finds its
  identifier in the list (deleting an identifier that is not there changes nothing).
\<close>

definition left_over :: "string list \<Rightarrow> watch list \<Rightarrow> string list" where
  "left_over offer_ids feed = foldl (\<lambda>ids w. remove1 (Kod w) ids) offer_ids feed"

text \<open>The zero entry \<^verbatim>\<open>seller.create_stocks\<close> appends for an identifier left in the list.\<close>

definition ozon_stub :: "string \<Rightarrow> ozon_stock" where
  "ozon_stub offer_id = \<lparr>s_offer_id = offer_id, s_stock = 0\<rparr>"

text \<open>
  The Yandex Market entry that carries the identifier and quantity of an Ozon entry, for
  a clock reading and a warehouse; \<open>redate\<close> replaces the time stamp of an entry.
\<close>

definition market_entry :: "string \<Rightarrow> string \<Rightarrow> ozon_stock \<Rightarrow> market_stock" where
  "market_entry date warehouse_id s =
     \<lparr>m_sku = s_offer_id s, m_warehouseId = warehouse_id,
      m_items = [\<lparr>i_count = s_stock s, i_type = ''FIT'', i_updatedAt = date\<rparr>]\<rparr>"

definition redate :: "string \<Rightarrow> market_stock \<Rightarrow> market_stock" where
  "redate date e = e\<lparr>m_items := map (\<lambda>i. i\<lparr>i_updatedAt := date\<rparr>) (m_items e)\<rparr>"

text \<open>
  A sequence of batches that respects the limit \<open>n\<close>: every batch but the last has
  exactly \<open>n\<close> entries, and the last one is not empty and has at most \<open>n\<close>.
\<close>

fun batched :: "nat \<Rightarrow> 'a list list \<Rightarrow> bool" where
  "batched n [] = True"
| "batched n [b] = (b \<noteq> [] \<and> length b \<le> n)"
| "batched n (b # c # bs) = (length b = n \<and> batched n (c # bs))"

section \<open>Properties of the quantity rule\<close>

lemma pair_zip_Cons:
  "(a, b) \<in> set (zip (x # xs) xs) \<longleftrightarrow>
     (xs \<noteq> [] \<and> a = x \<and> b = hd xs) \<or> (a, b) \<in> set (zip xs (tl xs))"
  by (cases xs) auto

lemma int_body_tail:
  "int_body acc xs =
     (if list_all (\<lambda>x. x = Underscore \<or> is_Digit x) xs \<and> (xs \<noteq> [] \<longrightarrow> last xs \<noteq> Underscore) \<and>
         (Underscore, Underscore) \<notin> set (zip xs (tl xs))
      then Some (foldl (\<lambda>a x. case x of Digit d \<Rightarrow> 10 * a + d | _ \<Rightarrow> a) acc xs)
      else None)"
  by (induction acc xs rule: int_body.induct) (auto simp: pair_zip_Cons)

lemma unsigned_int_numeral:
  "unsigned_int u = (if numeral u then Some (numeral_value u) else None)"
proof (cases u)
  case Nil
  then show ?thesis by (simp add: unsigned_int_def numeral_def)
next
  case (Cons x xs)
  show ?thesis
  proof (cases x)
    case (Digit d)
    show ?thesis
      unfolding Cons Digit
      by (auto simp: unsigned_int_def numeral_def numeral_value_def int_body_tail pair_zip_Cons)
  qed (simp_all add: Cons unsigned_int_def numeral_def)
qed

lemma strip_spaces_middle:
  assumes "list_all (\<lambda>x. x = Space) l" "list_all (\<lambda>x. x = Space) r"
    and "m \<noteq> []" "hd m \<noteq> Space" "last m \<noteq> Space"
  shows "strip_spaces (l @ m @ r) = m"
proof -
  obtain y ys where m: "m = y # ys" using assms(3) by (cases m) auto
  have y: "y \<noteq> Space" using assms(4) m by simp
  have "dropWhile (\<lambda>x. x = Space) (l @ m @ r) = dropWhile (\<lambda>x. x = Space) (m @ r)"
    using assms(1) by (intro dropWhile_append2) (simp add: list_all_iff)
  also have "\<dots> = m @ r" using y by (simp add: m)
  finally have a: "dropWhile (\<lambda>x. x = Space) (l @ m @ r) = m @ r" .
  obtain z zs where rm: "rev m = z # zs" using assms(3) by (cases "rev m") auto
  have "z = last m" using rm by (metis last_rev list.sel(1) rev_rev_ident)
  then have z: "z \<noteq> Space" using assms(5) by simp
  have "dropWhile (\<lambda>x. x = Space) (rev r @ rev m) = dropWhile (\<lambda>x. x = Space) (rev m)"
    using assms(2) by (intro dropWhile_append2) (simp add: list_all_iff)
  also have "\<dots> = rev m" using z by (simp add: rm)
  finally show ?thesis using a by (simp add: strip_spaces_def)
qed

lemma strip_spaces_split:
  "\<exists>l r. xs = l @ strip_spaces xs @ r \<and> list_all (\<lambda>x. x = Space) l \<and> list_all (\<lambda>x. x = Space) r"
proof -
  let ?P = "\<lambda>x. x = Space"
  let ?t = "dropWhile ?P xs"
  have a: "xs = takeWhile ?P xs @ ?t" by simp
  have "?t = rev (takeWhile ?P (rev ?t) @ dropWhile ?P (rev ?t))"
    by (simp only: takeWhile_dropWhile_id rev_rev_ident)
  then have b: "?t = strip_spaces xs @ rev (takeWhile ?P (rev ?t))"
    by (simp only: rev_append strip_spaces_def)
  have c: "list_all ?P (takeWhile ?P xs)" "list_all ?P (rev (takeWhile ?P (rev ?t)))"
    by (auto simp: list_all_iff dest: set_takeWhileD)
  have "xs = takeWhile ?P xs @ strip_spaces xs @ rev (takeWhile ?P (rev ?t))"
    by (subst a, subst b) (rule refl)
  then show ?thesis using c by blast
qed

lemma numeral_ends: "numeral body \<Longrightarrow> body \<noteq> [] \<and> is_Digit (hd body) \<and> is_Digit (last body)"
proof -
  assume n: "numeral body"
  then have ne: "body \<noteq> []" by (simp add: numeral_def)
  then have "hd body \<in> set body" "last body \<in> set body" by simp_all
  then show ?thesis using n ne by (auto simp: numeral_def list_all_iff)
qed

lemma int_literalI:
  assumes "symbols tok = l @ sg @ body @ r"
    and "list_all (\<lambda>x. x = Space) l" "list_all (\<lambda>x. x = Space) r"
    and "sg = [] \<or> sg = [Plus] \<or> sg = [Minus]" "numeral body"
    and "v = (if sg = [Minus] then - int (numeral_value body) else int (numeral_value body))"
  shows "int_literal tok v"
  unfolding int_literal_def
  apply (rule exI[of _ l], rule exI[of _ sg], rule exI[of _ body], rule exI[of _ r])
  using assms by simp

lemma unsigned_int_Some: "unsigned_int u = Some n \<Longrightarrow> numeral u \<and> n = numeral_value u"
  by (cases "numeral u") (simp_all add: unsigned_int_numeral)

lemma py_int_literal: "py_int tok = Some v \<longleftrightarrow> int_literal tok v"
proof
  assume p: "py_int tok = Some v"
  obtain l r where sp: "symbols tok = l @ strip_spaces (symbols tok) @ r"
    "list_all (\<lambda>x. x = Space) l" "list_all (\<lambda>x. x = Space) r"
    using strip_spaces_split by blast
  from p obtain x u where m: "strip_spaces (symbols tok) = x # u"
    by (cases "strip_spaces (symbols tok)") (simp_all add: py_int_def)
  show "int_literal tok v"
  proof (cases "x = Minus")
    case True
    then obtain n where n: "unsigned_int u = Some n" "v = - int n"
      using p m by (cases "unsigned_int u") (simp_all add: py_int_def)
    have nu: "numeral u" "n = numeral_value u" using unsigned_int_Some[OF n(1)] by simp_all
    have "symbols tok = l @ [Minus] @ u @ r" using sp(1) m True by simp
    then show ?thesis
      by (rule int_literalI) (simp_all add: sp nu n)
  next
    case nm: False
    show ?thesis
    proof (cases "x = Plus")
      case True
      then obtain n where n: "unsigned_int u = Some n" "v = int n"
        using p m by (cases "unsigned_int u") (simp_all add: py_int_def)
      have nu: "numeral u" "n = numeral_value u" using unsigned_int_Some[OF n(1)] by simp_all
      have "symbols tok = l @ [Plus] @ u @ r" using sp(1) m True by simp
      then show ?thesis
        by (rule int_literalI) (simp_all add: sp nu n)
    next
      case False
      then obtain n where n: "unsigned_int (x # u) = Some n" "v = int n"
        using p m nm by (cases "unsigned_int (x # u)") (simp_all add: py_int_def)
      have nu: "numeral (x # u)" "n = numeral_value (x # u)"
        using unsigned_int_Some[OF n(1)] by simp_all
      have "symbols tok = l @ [] @ (x # u) @ r" using sp(1) m by simp
      then show ?thesis
        by (rule int_literalI) (simp_all add: sp nu n)
    qed
  qed
next
  assume "int_literal tok v"
  then obtain l sg body r where d: "symbols tok = l @ sg @ body @ r"
    "list_all (\<lambda>x. x = Space) l" "list_all (\<lambda>x. x = Space) r"
    "sg = [] \<or> sg = [Plus] \<or> sg = [Minus]" "numeral body"
    "v = (if sg = [Minus] then - int (numeral_value body) else int (numeral_value body))"
    unfolding int_literal_def by blast
  have e: "body \<noteq> []" "is_Digit (hd body)" "is_Digit (last body)"
    using numeral_ends[OF d(5)] by simp_all
  obtain y ys where b: "body = y # ys" using e(1) by (cases body) auto
  have yd: "is_Digit y" using e(2) b by simp
  have ld: "last body \<noteq> Space" using e(3) by (cases "last body") simp_all
  have u: "unsigned_int body = Some (numeral_value body)"
    using d(5) by (simp add: unsigned_int_numeral)
  from d(4) show "py_int tok = Some v"
  proof (elim disjE)
    assume sg: "sg = []"
    have "hd body \<noteq> Space" using yd b by (cases y) simp_all
    then have "strip_spaces (l @ body @ r) = body"
      using strip_spaces_middle[OF d(2,3) e(1) _ ld] by simp
    then have st: "strip_spaces (symbols tok) = y # ys" using d(1) sg b by simp
    have "y \<noteq> Minus" "y \<noteq> Plus" using yd by (cases y; simp)+
    then show ?thesis using st u d(6) sg b by (simp add: py_int_def)
  next
    assume sg: "sg = [Plus]"
    have "strip_spaces (l @ (Plus # body) @ r) = Plus # body"
      by (rule strip_spaces_middle[OF d(2,3)]) (use e(1) ld in simp_all)
    then have st: "strip_spaces (symbols tok) = Plus # body" using d(1) sg by simp
    show ?thesis using st u d(6) sg by (simp add: py_int_def)
  next
    assume sg: "sg = [Minus]"
    have "strip_spaces (l @ (Minus # body) @ r) = Minus # body"
      by (rule strip_spaces_middle[OF d(2,3)]) (use e(1) ld in simp_all)
    then have st: "strip_spaces (symbols tok) = Minus # body" using d(1) sg by simp
    show ?thesis using st u d(6) sg by (simp add: py_int_def)
  qed
qed

lemma utf8_decode_ascii: "list_all (\<lambda>b. b < 0x80) bs \<Longrightarrow> utf8_decode bs = bs"
  by (induction bs) simp_all

lemma is_digit_classify:
  "is_digit c \<Longrightarrow> (of_char c :: nat) < 0x80 \<and> classify (of_char c) = Digit (digit_val c)"
  by (auto simp: is_digit_def classify_def digit_val_def)

lemma symbols_digits:
  assumes "list_all is_digit ds"
  shows "symbols ds = map (\<lambda>c. Digit (digit_val c)) ds"
proof -
  have a: "list_all (\<lambda>b. b < (0x80::nat)) (map of_char ds)"
    using assms by (auto simp: list_all_iff is_digit_classify)
  have "map classify (map of_char ds) = map (\<lambda>c. Digit (digit_val c)) ds"
    using assms by (auto simp: list_all_iff is_digit_classify)
  then show ?thesis by (simp add: symbols_def code_points_def utf8_decode_ascii[OF a])
qed

lemma numeral_value_digits:
  "foldl (\<lambda>a x. case x of Digit d \<Rightarrow> 10 * a + d | _ \<Rightarrow> a) acc (map (\<lambda>c. Digit (digit_val c)) ds) =
   foldl (\<lambda>a c. 10 * a + digit_val c) acc ds"
  by (induction ds arbitrary: acc) simp_all

lemma numeral_digits:
  "numeral (map (\<lambda>c. Digit (digit_val c)) ds) \<longleftrightarrow> ds \<noteq> [] \<and> length ds \<le> max_str_digits"
proof -
  let ?xs = "map (\<lambda>c. Digit (digit_val c)) ds"
  have a: "list_all (\<lambda>x. x = Underscore \<or> is_Digit x) ?xs" by (simp add: list_all_iff)
  have b: "filter is_Digit ?xs = ?xs" by (simp add: filter_id_conv)
  have c: "Underscore \<notin> set ?xs" by auto
  have d: "(Underscore, Underscore) \<notin> set (zip ?xs (tl ?xs))"
    using c by (meson set_zip_leftD)
  have e: "?xs \<noteq> [] \<Longrightarrow> hd ?xs \<noteq> Underscore \<and> last ?xs \<noteq> Underscore"
    using c by (metis hd_in_set last_in_set)
  show ?thesis
    unfolding numeral_def using a d e by (auto simp: b)
qed

lemma py_int_digits:
  assumes "ds \<noteq> []" "list_all is_digit ds" "length ds \<le> max_str_digits"
  shows "py_int ds = Some (int (decimal ds))"
proof -
  have "int_literal ds (int (decimal ds))"
  proof (rule int_literalI[of ds "[]" "[]" "map (\<lambda>c. Digit (digit_val c)) ds" "[]"])
    show "symbols ds = [] @ [] @ map (\<lambda>c. Digit (digit_val c)) ds @ []"
      using assms(2) by (simp add: symbols_digits)
    show "numeral (map (\<lambda>c. Digit (digit_val c)) ds)"
      using assms by (simp add: numeral_digits)
    show "int (decimal ds) =
        (if [] = [Minus] then - int (numeral_value (map (\<lambda>c. Digit (digit_val c)) ds))
         else int (numeral_value (map (\<lambda>c. Digit (digit_val c)) ds)))"
      by (simp add: numeral_value_def numeral_value_digits decimal_def)
  qed simp_all
  then show ?thesis by (simp add: py_int_literal)
qed

lemma py_int_too_long:
  assumes "list_all is_digit ds" "max_str_digits < length ds"
  shows "py_int ds = None"
proof -
  let ?xs = "map (\<lambda>c. Digit (digit_val c)) ds"
  obtain c cs where ds: "ds = c # cs" using assms(2) by (cases ds) auto
  have "strip_spaces ([] @ ?xs @ []) = ?xs"
    by (rule strip_spaces_middle) (simp_all add: ds last_map)
  then have st: "strip_spaces (symbols ds) = Digit (digit_val c) # map (\<lambda>c. Digit (digit_val c)) cs"
    using assms(1) by (simp add: symbols_digits ds)
  have "\<not> numeral ?xs" using assms(2) by (simp add: numeral_digits)
  then have "unsigned_int ?xs = None" by (simp add: unsigned_int_numeral)
  then show ?thesis using st by (simp add: py_int_def ds)
qed

lemma int_literal_1: "int_literal ''1'' 1"
proof -
  have "py_int ''1'' = Some (int (decimal ''1''))"
    by (rule py_int_digits) (simp_all add: is_digit_def max_str_digits_def)
  then show ?thesis by (simp add: py_int_literal decimal_def digit_val_def)
qed

lemma normalize_count_too_long:
  assumes "list_all is_digit ds" "4300 < length ds"
  shows "normalize_count ds = Inl ValueError"
proof -
  have "ds \<noteq> ''>10''" "ds \<noteq> ''1''" using assms(2) by auto
  moreover have "py_int ds = None"
    using assms by (intro py_int_too_long) (simp_all add: max_str_digits_def)
  ultimately show ?thesis by (simp add: normalize_count_def)
qed

text \<open>
  Claim C2, as amended. The quantity rule of \<^verbatim>\<open>create_stocks\<close>: the token \<^verbatim>\<open>">10"\<close>
  gives 100 and the token \<^verbatim>\<open>"1"\<close> gives 0. Any other token that is an integer literal
  gives the value of the literal, and a token that is no integer literal raises
  \<^verbatim>\<open>ValueError\<close>. In particular a plain string of at most 4300 decimal digits gives the
  number it denotes, and one of more than 4300 digits raises \<^verbatim>\<open>ValueError\<close>.
\<close>

theorem normalize_count_table:
  "normalize_count ''>10'' = Inr 100 \<and>
   normalize_count ''1'' = Inr 0 \<and>
   (count \<noteq> ''>10'' \<and> count \<noteq> ''1'' \<and> int_literal count v \<longrightarrow> normalize_count count = Inr v) \<and>
   (count \<noteq> ''>10'' \<and> (\<forall>n. \<not> int_literal count n) \<longrightarrow> normalize_count count = Inl ValueError) \<and>
   (count \<noteq> [] \<and> list_all is_digit count \<and> count \<noteq> ''1'' \<and> length count \<le> 4300
      \<longrightarrow> normalize_count count = Inr (int (decimal count))) \<and>
   (list_all is_digit count \<and> 4300 < length count \<longrightarrow> normalize_count count = Inl ValueError)"
proof -
  have a: "normalize_count ''>10'' = Inr 100" by (simp add: normalize_count_def)
  have b: "normalize_count ''1'' = Inr 0" by (simp add: normalize_count_def)
  have c: "normalize_count count = Inr v"
    if "count \<noteq> ''>10''" "count \<noteq> ''1''" "int_literal count v"
    using that by (simp add: normalize_count_def py_int_literal[symmetric])
  have d: "normalize_count count = Inl ValueError"
    if h: "count \<noteq> ''>10''" "\<forall>n. \<not> int_literal count n"
  proof -
    have "count \<noteq> ''1''" using h(2) int_literal_1 by blast
    moreover have "py_int count = None"
    proof (cases "py_int count")
      case (Some n)
      then show ?thesis using h(2) by (simp add: py_int_literal)
    qed simp
    ultimately show ?thesis using h(1) by (simp add: normalize_count_def)
  qed
  have e: "normalize_count count = Inr (int (decimal count))"
    if h: "count \<noteq> []" "list_all is_digit count" "count \<noteq> ''1''" "length count \<le> 4300"
  proof -
    have "count \<noteq> ''>10''" using h(2) by (auto simp: is_digit_def)
    moreover have "py_int count = Some (int (decimal count))"
      using h by (intro py_int_digits) (simp_all add: max_str_digits_def)
    ultimately show ?thesis using h(3) by (simp add: normalize_count_def)
  qed
  have f: "normalize_count count = Inl ValueError"
    if h: "list_all is_digit count" "4300 < length count"
    using h by (rule normalize_count_too_long)
  from a b c d e f show ?thesis by blast
qed

lemmas symbols_eval =
  symbols_def code_points_def continuation_def no_character_def classify_def unicode_space_def
  unicode_decimal_def decimal_runs_def

lemma py_int_Nil: "py_int [] = None"
  by (simp add: py_int_def strip_spaces_def symbols_eval)

lemma py_int_rejects:
  "py_int ''abc'' = None \<and> py_int ''12abc'' = None \<and> py_int ''2.5'' = None \<and>
   py_int ''1__0'' = None \<and> py_int ''_1'' = None \<and> py_int ''1_'' = None \<and>
   py_int ''- 1'' = None \<and> py_int [CHR 0x1C, CHR ''1''] = None \<and> py_int [CHR 0xC2, CHR 0xB2] = None"
  by (simp add: py_int_def strip_spaces_def unsigned_int_def symbols_eval)

lemma py_int_accepts:
  "py_int ''-5'' = Some (- 5) \<and> py_int '' 1_000 '' = Some 1000 \<and> py_int ''+007'' = Some 7 \<and>
   py_int ([CHR 0xC2, CHR 0xA0] @ ''5'') = Some 5 \<and>
   py_int [CHR 0xD9, CHR 0xA1, CHR 0xD9, CHR 0xA2] = Some 12"
  by (simp add: py_int_def strip_spaces_def unsigned_int_def max_str_digits_def symbols_eval)

lemma py_int_5990: "py_int ''5990'' = Some 5990"
proof -
  have "py_int ''5990'' = Some (int (decimal ''5990''))"
    by (rule py_int_digits) (simp_all add: is_digit_def max_str_digits_def)
  then show ?thesis by (simp add: decimal_def digit_val_def)
qed

lemma normalize_count_10: "normalize_count ''10'' = Inr 10"
proof -
  have "py_int ''10'' = Some (int (decimal ''10''))"
    by (rule py_int_digits) (simp_all add: is_digit_def max_str_digits_def)
  then show ?thesis by (simp add: normalize_count_def decimal_def digit_val_def)
qed

lemma normalize_count_5: "normalize_count ''5'' = Inr 5"
proof -
  have "py_int ''5'' = Some (int (decimal ''5''))"
    by (rule py_int_digits) (simp_all add: is_digit_def max_str_digits_def)
  then show ?thesis by (simp add: normalize_count_def decimal_def digit_val_def)
qed

theorem normalize_count_table_witness:
  "normalize_count ''37'' = Inr 37 \<and> normalize_count ''-5'' = Inr (- 5) \<and>
   normalize_count ([CHR 0xC2, CHR 0xA0] @ ''5'') = Inr 5 \<and>
   normalize_count ''abc'' = Inl ValueError \<and> normalize_count ''12abc'' = Inl ValueError \<and>
   normalize_count ''2.5'' = Inl ValueError \<and>
   normalize_count (replicate 5000 (CHR ''0'')) = Inl ValueError"
proof -
  have d37: "''37'' \<noteq> [] \<and> list_all is_digit ''37'' \<and> ''37'' \<noteq> ''1'' \<and> length ''37'' \<le> 4300"
    by (simp add: is_digit_def)
  have v37: "int (decimal ''37'') = 37" by (simp add: decimal_def digit_val_def)
  have l5: "int_literal ''-5'' (- 5)"
    by (rule int_literalI[of _ "[]" "[Minus]" "[Digit 5]" "[]"])
      (simp_all add: symbols_eval numeral_def numeral_value_def max_str_digits_def)
  have n5: "''-5'' \<noteq> ''>10'' \<and> ''-5'' \<noteq> ''1'' \<and> int_literal ''-5'' (- 5)"
    using l5 by simp
  have lb: "int_literal ([CHR 0xC2, CHR 0xA0] @ ''5'') 5"
    by (rule int_literalI[of _ "[Space]" "[]" "[Digit 5]" "[]"])
      (simp_all add: symbols_eval numeral_def numeral_value_def max_str_digits_def)
  have nb: "[CHR 0xC2, CHR 0xA0] @ ''5'' \<noteq> ''>10'' \<and> [CHR 0xC2, CHR 0xA0] @ ''5'' \<noteq> ''1'' \<and>
      int_literal ([CHR 0xC2, CHR 0xA0] @ ''5'') 5"
    using lb by simp
  have abc: "''abc'' \<noteq> ''>10'' \<and> (\<forall>n. \<not> int_literal ''abc'' n)"
    using py_int_rejects by (simp add: py_int_literal[symmetric])
  have x12: "''12abc'' \<noteq> ''>10'' \<and> (\<forall>n. \<not> int_literal ''12abc'' n)"
    using py_int_rejects by (simp add: py_int_literal[symmetric])
  have x25: "''2.5'' \<noteq> ''>10'' \<and> (\<forall>n. \<not> int_literal ''2.5'' n)"
    using py_int_rejects by (simp add: py_int_literal[symmetric])
  have long: "list_all is_digit (replicate 5000 (CHR ''0'')) \<and>
      4300 < length (replicate 5000 (CHR ''0''))"
    by (simp add: list_all_iff is_digit_def)
  have r1: "normalize_count ''37'' = Inr 37"
    using normalize_count_table [of "''37''" 0] d37 v37 by simp
  have r2: "normalize_count ''-5'' = Inr (- 5)"
    using normalize_count_table [of "''-5''" "- 5"] n5 by blast
  have r3: "normalize_count ([CHR 0xC2, CHR 0xA0] @ ''5'') = Inr 5"
    using normalize_count_table [of "[CHR 0xC2, CHR 0xA0] @ ''5''" 5] nb by blast
  have r4: "normalize_count ''abc'' = Inl ValueError"
    using normalize_count_table [of "''abc''" 0] abc by blast
  have r5: "normalize_count ''12abc'' = Inl ValueError"
    using normalize_count_table [of "''12abc''" 0] x12 by blast
  have r6: "normalize_count ''2.5'' = Inl ValueError"
    using normalize_count_table [of "''2.5''" 0] x25 by blast
  have r7: "normalize_count (replicate 5000 (CHR ''0'')) = Inl ValueError"
    using normalize_count_table [of "replicate 5000 (CHR ''0'')" 0] long by blast
  from r1 r2 r3 r4 r5 r6 r7 show ?thesis by blast
qed

text \<open>
  Claim C2 as stated fails for a numeral of more than 4300 digits: it is a numeric
  string, and \<^verbatim>\<open>int\<close> refuses it.
\<close>

theorem normalize_count_long_numeral_counterexample:
  "normalize_count (replicate 4301 (CHR ''7'')) = Inl ValueError"
proof -
  have d: "list_all is_digit (replicate 4301 (CHR ''7''))"
    by (simp add: list_all_iff is_digit_def)
  have l: "4300 < length (replicate 4301 (CHR ''7''))" by simp
  show ?thesis by (rule normalize_count_too_long[OF d l])
qed

section \<open>Properties of the chunker\<close>

lemma slices_unfold:
  "0 < n \<Longrightarrow> i < length lst \<Longrightarrow> slices lst n i = take n (drop i lst) # slices lst n (i + n)"
  by (subst slices.simps) simp

lemma slices_done: "\<not> (0 < n \<and> i < length lst) \<Longrightarrow> slices lst n i = []"
  by (subst slices.simps) simp

lemma slices_Nil_iff: "slices lst n i = [] \<longleftrightarrow> \<not> (0 < n \<and> i < length lst)"
  by (subst slices.simps) simp

lemma concat_slices: "0 < n \<Longrightarrow> concat (slices lst n i) = drop i lst"
proof (induction lst n i rule: slices.induct)
  case (1 lst n i)
  show ?case
  proof (cases "i < length lst")
    case True
    have d: "drop (i + n) lst = drop n (drop i lst)" by (simp add: add.commute)
    have "concat (slices lst n i) = take n (drop i lst) @ concat (slices lst n (i + n))"
      using 1 True by (simp add: slices_unfold)
    also have "\<dots> = take n (drop i lst) @ drop n (drop i lst)"
      using "1.IH" "1.prems" True d by simp
    also have "\<dots> = drop i lst" by (rule append_take_drop_id)
    finally show ?thesis .
  next
    case False
    then show ?thesis by (simp add: slices_done)
  qed
qed

lemma slices_bounds: "c \<in> set (slices lst n i) \<Longrightarrow> c \<noteq> [] \<and> length c \<le> n"
proof (induction lst n i rule: slices.induct)
  case (1 lst n i)
  show ?case
  proof (cases "0 < n \<and> i < length lst")
    case True
    with 1 show ?thesis by (auto simp: slices_unfold)
  next
    case False
    with 1 show ?thesis by (simp add: slices_done)
  qed
qed

lemma slices_full: "Suc k < length (slices lst n i) \<Longrightarrow> length (slices lst n i ! k) = n"
proof (induction lst n i arbitrary: k rule: slices.induct)
  case (1 lst n i)
  show ?case
  proof (cases "0 < n \<and> i < length lst")
    case True
    then have u: "slices lst n i = take n (drop i lst) # slices lst n (i + n)"
      by (simp add: slices_unfold)
    show ?thesis
    proof (cases k)
      case 0
      have "slices lst n (i + n) \<noteq> []" using "1.prems" u 0 by auto
      then have "i + n < length lst" by (simp add: slices_Nil_iff)
      then show ?thesis using u 0 by simp
    next
      case (Suc j)
      then have "Suc j < length (slices lst n (i + n))" using "1.prems" u by simp
      then show ?thesis using "1.IH" True u Suc by simp
    qed
  next
    case False
    with "1.prems" show ?thesis by (simp add: slices_done)
  qed
qed

lemma slices_last:
  "0 < n \<Longrightarrow> i < length lst \<Longrightarrow>
   length (last (slices lst n i)) =
     (if (length lst - i) mod n = 0 then n else (length lst - i) mod n)"
proof (induction lst n i rule: slices.induct)
  case (1 lst n i)
  have u: "slices lst n i = take n (drop i lst) # slices lst n (i + n)"
    using "1.prems" by (simp add: slices_unfold)
  show ?case
  proof (cases "i + n < length lst")
    case True
    then have ne: "slices lst n (i + n) \<noteq> []" using "1.prems" by (simp add: slices_Nil_iff)
    have "length lst - i = (length lst - (i + n)) + n" using True by simp
    then have m: "(length lst - i) mod n = (length lst - (i + n)) mod n"
      by (metis mod_add_self2)
    show ?thesis using "1.IH" "1.prems" True u ne m by simp
  next
    case False
    then have e: "slices lst n (i + n) = []" by (simp add: slices_done)
    have le: "length lst - i \<le> n" using False by simp
    show ?thesis
    proof (cases "length lst - i = n")
      case True
      then show ?thesis using u e by simp
    next
      case F: False
      then have "length lst - i < n" using le by simp
      then show ?thesis using u e "1.prems" by simp
    qed
  qed
qed

text \<open>
  Claim C8, as amended. \<open>divide\<close> raises for the size 0 only (\<^verbatim>\<open>ValueError\<close>, from
  \<^verbatim>\<open>range\<close>); for a negative size it yields no chunk and raises nothing. For a
  positive size the chunks are in order and concatenate to the list, none is empty or
  longer than the size, every chunk but the last has exactly the size, and the last one
  has \<open>length lst mod n\<close> elements, or \<open>n\<close> when that is zero.
\<close>

theorem divide_partition:
  "divide lst 0 = Inl ValueError \<and>
   (n < 0 \<longrightarrow> divide lst n = Inr []) \<and>
   (0 < n \<longrightarrow>
      (\<exists>cs. divide lst n = Inr cs \<and> concat cs = lst \<and>
            (\<forall>c \<in> set cs. c \<noteq> [] \<and> length c \<le> nat n) \<and>
            (\<forall>k. Suc k < length cs \<longrightarrow> length (cs ! k) = nat n) \<and>
            (lst \<noteq> [] \<longrightarrow>
               length (last cs) =
                 (if length lst mod nat n = 0 then nat n else length lst mod nat n))))"
proof -
  have pos: "\<exists>cs. divide lst n = Inr cs \<and> concat cs = lst \<and>
            (\<forall>c \<in> set cs. c \<noteq> [] \<and> length c \<le> nat n) \<and>
            (\<forall>k. Suc k < length cs \<longrightarrow> length (cs ! k) = nat n) \<and>
            (lst \<noteq> [] \<longrightarrow>
               length (last cs) =
                 (if length lst mod nat n = 0 then nat n else length lst mod nat n))"
    if "0 < n"
  proof -
    have d: "divide lst n = Inr (slices lst (nat n) 0)" using that by (simp add: divide_def)
    have n: "0 < nat n" using that by simp
    have a: "concat (slices lst (nat n) 0) = lst" using concat_slices[OF n, of lst 0] by simp
    have b: "\<forall>c \<in> set (slices lst (nat n) 0). c \<noteq> [] \<and> length c \<le> nat n"
      using slices_bounds by blast
    have c: "\<forall>k. Suc k < length (slices lst (nat n) 0) \<longrightarrow> length (slices lst (nat n) 0 ! k) = nat n"
      using slices_full by blast
    have e: "lst \<noteq> [] \<longrightarrow> length (last (slices lst (nat n) 0)) =
                 (if length lst mod nat n = 0 then nat n else length lst mod nat n)"
      using slices_last[OF n, of 0 lst] by simp
    from d a b c e show ?thesis by blast
  qed
  have z: "divide lst 0 = Inl ValueError" by (simp add: divide_def)
  have neg: "n < 0 \<longrightarrow> divide lst n = Inr []" by (simp add: divide_def)
  from z neg pos show ?thesis by blast
qed

lemma slices_123_2: "slices [1, 2, 3 :: int] 2 0 = [[1, 2], [3]]"
  by (simp add: slices_unfold slices_done)

theorem divide_partition_witness:
  "divide [1, 2, 3 :: int] 2 = Inr [[1, 2], [3]] \<and> divide [1, 2, 3 :: int] (- 2) = Inr [] \<and>
   divide [1, 2, 3 :: int] 0 = Inl ValueError"
proof -
  have v: "divide [1, 2, 3 :: int] 2 = Inr [[1, 2], [3]]"
    by (simp add: divide_def slices_123_2)
  have "(0::int) < 2" by simp
  with divide_partition [of "[1, 2, 3 :: int]" 2] v
  have p: "concat [[1, 2], [3 :: int]] = [1, 2, 3]" by auto
  have m: "(- 2 :: int) < 0" by simp
  show ?thesis
    using v p m divide_partition [of "[1, 2, 3 :: int]" "- 2"] by simp
qed

text \<open>
  Claim C8 as stated fails for a negative size: the call returns the empty sequence.
\<close>

theorem divide_negative_size_counterexample:
  "divide [1, 2, 3 :: int] (- 1) = Inr []"
  by (simp add: divide_def)

section \<open>Properties of price parsing and price building\<close>

lemma price_conversion_docstring_examples:
  "price_conversion (''5'990.00 '' @ [CHR 0xD1, CHR 0x80, CHR 0xD1, CHR 0x83, CHR 0xD0, CHR 0xB1, CHR ''.'']) = ''5990'' \<and>
   price_conversion (''1'500.50 '' @ [CHR 0xD1, CHR 0x80, CHR 0xD1, CHR 0x83, CHR 0xD0, CHR 0xB1, CHR ''.'']) = ''1500''"
  by (simp add: price_conversion_def is_digit_def)

lemma price_conversion_digits: "list_all is_digit (price_conversion price)"
  by (simp add: price_conversion_def list_all_iff)

text \<open>
  Claim C4. On a price with no digit before the first full stop \<open>price_conversion\<close>
  returns the empty string and raises nothing, although its docstring announces
  \<^verbatim>\<open>ValueError\<close> for a string that cannot be converted. \<^verbatim>\<open>seller.create_prices\<close>
  then puts the empty string in the payload; \<^verbatim>\<open>market.create_prices\<close> raises, because
  it passes the result to \<^verbatim>\<open>int\<close>.
\<close>

theorem price_conversion_without_digits:
  "price_conversion [] = [] \<and>
   price_conversion ''abc'' = [] \<and>
   fst (seller_create_prices [\<lparr>Kod = ''123'', Kolichestvo = ''10'', Tsena = ''abc''\<rparr>] [''123'']) =
     [\<lparr>p_auto_action_enabled = ''UNKNOWN'', p_currency_code = ''RUB'', p_offer_id = ''123'',
       p_old_price = ''0'', p_price = []\<rparr>] \<and>
   fst (market_create_prices [\<lparr>Kod = ''123'', Kolichestvo = ''10'', Tsena = ''abc''\<rparr>] [''123'']) =
     Inl ValueError"
  by (simp add: price_conversion_def is_digit_def seller_create_prices_def market_create_prices_def
      py_int_Nil)

lemma seller_prices_loop_eq:
  "seller_prices_loop ws ids acc = (acc @ map ozon_price_entry [w \<leftarrow> ws. Kod w \<in> set ids], ids)"
  by (induction ws arbitrary: acc) (simp_all add: ozon_price_entry_def)

lemma seller_create_prices_eq:
  "seller_create_prices feed ids = (map ozon_price_entry [w \<leftarrow> feed. Kod w \<in> set ids], ids)"
  by (simp add: seller_create_prices_def seller_prices_loop_eq)

lemma market_prices_loop_frame: "snd (market_prices_loop ws ids acc) = ids"
  by (induction ws arbitrary: acc) (simp_all split: option.splits)

lemma market_prices_loop_ids:
  "market_prices_loop ws ids acc = (Inr prices, ids') \<Longrightarrow>
   map mp_id prices = map mp_id acc @ [k \<leftarrow> map Kod ws. k \<in> set ids]"
  by (induction ws arbitrary: acc) (auto split: option.splits if_splits)

text \<open>
  Claim C7. \<^verbatim>\<open>create_prices\<close> leaves the identifier list as it found it, in both
  files, so a second call with the same feed and the list the first call left behind
  returns what the first returned. Its entries are those of the feed records whose
  identifier is in the list, in feed order: it adds no entry for an identifier that is
  only in the list.
\<close>

theorem create_prices_frame:
  "snd (seller_create_prices feed ids) = ids \<and>
   seller_create_prices feed (snd (seller_create_prices feed ids)) = seller_create_prices feed ids \<and>
   map p_offer_id (fst (seller_create_prices feed ids)) = [k \<leftarrow> map Kod feed. k \<in> set ids] \<and>
   snd (market_create_prices feed ids) = ids \<and>
   market_create_prices feed (snd (market_create_prices feed ids)) = market_create_prices feed ids \<and>
   (\<forall>prices. fst (market_create_prices feed ids) = Inr prices \<longrightarrow>
      map mp_id prices = [k \<leftarrow> map Kod feed. k \<in> set ids])"
proof -
  have a: "snd (seller_create_prices feed ids) = ids" by (simp add: seller_create_prices_eq)
  have b: "map p_offer_id (fst (seller_create_prices feed ids)) = [k \<leftarrow> map Kod feed. k \<in> set ids]"
    by (simp add: seller_create_prices_eq filter_map comp_def ozon_price_entry_def)
  have c: "snd (market_create_prices feed ids) = ids"
    by (simp add: market_create_prices_def market_prices_loop_frame)
  have d: "map mp_id prices = [k \<leftarrow> map Kod feed. k \<in> set ids]"
    if "fst (market_create_prices feed ids) = Inr prices" for prices
  proof -
    have "market_prices_loop feed ids [] = (Inr prices, ids)"
      using that c by (simp add: market_create_prices_def prod_eq_iff)
    from market_prices_loop_ids[OF this] show ?thesis by simp
  qed
  from a b c d show ?thesis by simp
qed

theorem create_prices_frame_witness:
  "seller_create_prices [\<lparr>Kod = ''123'', Kolichestvo = ''10'', Tsena = ''5'990.00''\<rparr>] [''123'', ''124''] =
     ([\<lparr>p_auto_action_enabled = ''UNKNOWN'', p_currency_code = ''RUB'', p_offer_id = ''123'',
        p_old_price = ''0'', p_price = ''5990''\<rparr>], [''123'', ''124'']) \<and>
   market_create_prices [\<lparr>Kod = ''123'', Kolichestvo = ''10'', Tsena = ''5'990.00''\<rparr>] [''123'', ''124''] =
     (Inr [\<lparr>mp_id = ''123'', mp_price = \<lparr>v_value = 5990, v_currencyId = ''RUR''\<rparr>\<rparr>], [''123'', ''124'']) \<and>
   map mp_id [\<lparr>mp_id = ''123'', mp_price = \<lparr>v_value = 5990, v_currencyId = ''RUR''\<rparr>\<rparr>] = [''123'']"
proof -
  let ?feed = "[\<lparr>Kod = ''123'', Kolichestvo = ''10'', Tsena = ''5'990.00''\<rparr>]"
  let ?ids = "[''123'', ''124'']"
  have s: "seller_create_prices ?feed ?ids =
     ([\<lparr>p_auto_action_enabled = ''UNKNOWN'', p_currency_code = ''RUB'', p_offer_id = ''123'',
        p_old_price = ''0'', p_price = ''5990''\<rparr>], ?ids)"
    by (simp add: seller_create_prices_def price_conversion_def is_digit_def)
  have m: "market_create_prices ?feed ?ids =
     (Inr [\<lparr>mp_id = ''123'', mp_price = \<lparr>v_value = 5990, v_currencyId = ''RUR''\<rparr>\<rparr>], ?ids)"
    by (simp add: market_create_prices_def price_conversion_def is_digit_def py_int_5990)
  show ?thesis
    using create_prices_frame [of ?feed ?ids] s m by simp
qed

section \<open>Properties of stock reconciliation\<close>

lemma left_over_Cons: "left_over ids (w # ws) = left_over (remove1 (Kod w) ids) ws"
  by (simp add: left_over_def)

lemma left_over_Nil: "left_over ids [] = ids"
  by (simp add: left_over_def)

lemma seller_stocks_loop_rest:
  "seller_stocks_loop ws ids acc = (Inr out, rest) \<Longrightarrow> rest = left_over ids ws"
proof (induction ws arbitrary: ids acc)
  case Nil
  then show ?case by (simp add: left_over_Nil)
next
  case (Cons w ws)
  show ?case
  proof (cases "Kod w \<in> set ids")
    case True
    with Cons.prems obtain q where
      "seller_stocks_loop ws (remove1 (Kod w) ids) (acc @ [\<lparr>s_offer_id = Kod w, s_stock = q\<rparr>])
         = (Inr out, rest)"
      by (auto split: sum.splits)
    from Cons.IH[OF this] show ?thesis by (simp add: left_over_Cons)
  next
    case False
    with Cons.prems have "seller_stocks_loop ws ids acc = (Inr out, rest)" by simp
    from Cons.IH[OF this] False show ?thesis by (simp add: left_over_Cons remove1_idem)
  qed
qed

lemma left_over_distinct:
  "distinct ids \<Longrightarrow> left_over ids ws = [x \<leftarrow> ids. x \<notin> Kod ` set ws]"
proof (induction ws arbitrary: ids)
  case Nil
  then show ?case by (simp add: left_over_Nil)
next
  case (Cons w ws)
  have r: "remove1 (Kod w) ids = [x \<leftarrow> ids. x \<noteq> Kod w]"
    using Cons.prems
    by (auto simp: distinct_remove1_removeAll removeAll_filter_not_eq intro: filter_cong)
  have "distinct (remove1 (Kod w) ids)" using Cons.prems by simp
  from Cons.IH[OF this] show ?case
    by (simp add: left_over_Cons r)
qed

lemma left_over_subset: "set (left_over ids ws) \<subseteq> set ids"
proof (induction ws arbitrary: ids)
  case Nil
  then show ?case by (simp add: left_over_Nil)
next
  case (Cons w ws)
  have "set (left_over (remove1 (Kod w) ids) ws) \<subseteq> set (remove1 (Kod w) ids)" by (rule Cons.IH)
  also have "\<dots> \<subseteq> set ids" by (rule set_remove1_subset)
  finally show ?case by (simp add: left_over_Cons)
qed

lemma seller_stocks_loop_distinct:
  assumes "distinct (map Kod ws)"
    and "\<forall>w \<in> set ws. Kod w \<in> set ids \<longrightarrow> normalize_count (Kolichestvo w) = Inr (q w)"
  shows "seller_stocks_loop ws ids acc =
           (Inr (acc @ map (\<lambda>w. \<lparr>s_offer_id = Kod w, s_stock = q w\<rparr>) [w \<leftarrow> ws. Kod w \<in> set ids]),
            left_over ids ws)"
  using assms
proof (induction ws arbitrary: ids acc)
  case Nil
  then show ?case by (simp add: left_over_Nil)
next
  case (Cons w ws)
  have d: "distinct (map Kod ws)" and nw: "Kod w \<notin> Kod ` set ws" using Cons.prems(1) by auto
  show ?case
  proof (cases "Kod w \<in> set ids")
    case True
    let ?ids = "remove1 (Kod w) ids"
    have same: "Kod v \<in> set ?ids \<longleftrightarrow> Kod v \<in> set ids" if "v \<in> set ws" for v
    proof -
      have "Kod v \<noteq> Kod w" using that nw by (metis image_eqI)
      then show ?thesis by (metis in_set_remove1)
    qed
    have h: "\<forall>v \<in> set ws. Kod v \<in> set ?ids \<longrightarrow> normalize_count (Kolichestvo v) = Inr (q v)"
      using Cons.prems(2) same by auto
    have f: "[v \<leftarrow> ws. Kod v \<in> set ?ids] = [v \<leftarrow> ws. Kod v \<in> set ids]"
      using same by (auto intro: filter_cong)
    have n: "normalize_count (Kolichestvo w) = Inr (q w)" using Cons.prems(2) True by simp
    show ?thesis
      using True n Cons.IH[OF d h, of "acc @ [\<lparr>s_offer_id = Kod w, s_stock = q w\<rparr>]"] f
      by (simp add: left_over_Cons)
  next
    case False
    have h: "\<forall>v \<in> set ws. Kod v \<in> set ids \<longrightarrow> normalize_count (Kolichestvo v) = Inr (q v)"
      using Cons.prems(2) by auto
    show ?thesis
      using False Cons.IH[OF d h, of acc] by (simp add: left_over_Cons remove1_idem)
  qed
qed

lemma seller_stocks_loop_raises:
  assumes "distinct (map Kod ws)"
    and "\<exists>w \<in> set ws. Kod w \<in> set ids \<and> normalize_count (Kolichestvo w) = Inl ValueError"
  shows "fst (seller_stocks_loop ws ids acc) = Inl ValueError"
  using assms
proof (induction ws arbitrary: ids acc)
  case Nil
  then show ?case by simp
next
  case (Cons w ws)
  have d: "distinct (map Kod ws)" and nw: "Kod w \<notin> Kod ` set ws" using Cons.prems(1) by auto
  obtain b where b: "b \<in> set (w # ws)" "Kod b \<in> set ids"
    "normalize_count (Kolichestvo b) = Inl ValueError"
    using Cons.prems(2) by blast
  show ?case
  proof (cases "b = w")
    case True
    then show ?thesis using b by simp
  next
    case False
    then have bw: "b \<in> set ws" using b(1) by simp
    then have ne: "Kod b \<noteq> Kod w" using nw by (metis image_eqI)
    show ?thesis
    proof (cases "Kod w \<in> set ids")
      case kin: True
      show ?thesis
      proof (cases "normalize_count (Kolichestvo w)")
        case (Inl e)
        then show ?thesis using kin by (cases e) simp
      next
        case (Inr k)
        have "Kod b \<in> set (remove1 (Kod w) ids)" using b(2) ne by (metis in_set_remove1)
        then have "\<exists>v \<in> set ws. Kod v \<in> set (remove1 (Kod w) ids) \<and>
            normalize_count (Kolichestvo v) = Inl ValueError"
          using bw b(3) by blast
        from Cons.IH[OF d this] show ?thesis using kin Inr by simp
      qed
    next
      case kout: False
      have "\<exists>v \<in> set ws. Kod v \<in> set ids \<and> normalize_count (Kolichestvo v) = Inl ValueError"
        using bw b by blast
      from Cons.IH[OF d this] show ?thesis using kout by simp
    qed
  qed
qed

lemma market_stocks_loop_seller:
  "market_stocks_loop date wh ws ids (map (market_entry date wh) acc) =
     map_prod (map_sum id (map (market_entry date wh))) id (seller_stocks_loop ws ids acc)"
proof (induction ws arbitrary: ids acc)
  case Nil
  then show ?case by simp
next
  case (Cons w ws)
  show ?case
  proof (cases "Kod w \<in> set ids")
    case True
    show ?thesis
    proof (cases "normalize_count (Kolichestvo w)")
      case (Inl e)
      then show ?thesis using True by simp
    next
      case (Inr k)
      let ?acc = "acc @ [\<lparr>s_offer_id = Kod w, s_stock = k\<rparr>]"
      have e: "map (market_entry date wh) acc @
              [\<lparr>m_sku = Kod w, m_warehouseId = wh,
                m_items = [\<lparr>i_count = k, i_type = ''FIT'', i_updatedAt = date\<rparr>]\<rparr>] =
            map (market_entry date wh) ?acc"
        by (simp add: market_entry_def)
      have a: "market_stocks_loop date wh (w # ws) ids (map (market_entry date wh) acc) =
          market_stocks_loop date wh ws (remove1 (Kod w) ids) (map (market_entry date wh) ?acc)"
        using True Inr e by (simp del: map_append)
      have s: "seller_stocks_loop (w # ws) ids acc =
          seller_stocks_loop ws (remove1 (Kod w) ids) ?acc"
        using True Inr by simp
      show ?thesis unfolding a s by (rule Cons.IH)
    qed
  next
    case False
    then show ?thesis using Cons.IH by simp
  qed
qed

lemma market_create_stocks_seller:
  "market_create_stocks date feed ids wh =
     map_prod (map_sum id (map (market_entry date wh))) id (seller_create_stocks feed ids)"
proof -
  have m: "market_stocks_loop date wh feed ids [] =
      map_prod (map_sum id (map (market_entry date wh))) id (seller_stocks_loop feed ids [])"
    using market_stocks_loop_seller[of date wh feed ids "[]"] by simp
  obtain r rest where s: "seller_stocks_loop feed ids [] = (r, rest)" by (cases "seller_stocks_loop feed ids []")
  show ?thesis
  proof (cases r)
    case (Inl e)
    then show ?thesis using m s by (simp add: market_create_stocks_def seller_create_stocks_def)
  next
    case (Inr out)
    then show ?thesis using m s
      by (simp add: market_create_stocks_def seller_create_stocks_def market_entry_def)
  qed
qed

lemma seller_create_stocks_rest:
  assumes "seller_create_stocks feed ids = (Inr out, rest)"
  shows "rest = left_over ids feed \<and>
         (\<exists>m. seller_stocks_loop feed ids [] = (Inr m, rest) \<and> out = m @ map ozon_stub rest)"
proof -
  obtain r rest' where s: "seller_stocks_loop feed ids [] = (r, rest')"
    by (cases "seller_stocks_loop feed ids []")
  show ?thesis
  proof (cases r)
    case (Inl e)
    then show ?thesis using assms s by (simp add: seller_create_stocks_def)
  next
    case (Inr m)
    then have "rest' = rest" "out = m @ map ozon_stub rest"
      using assms s by (auto simp: seller_create_stocks_def ozon_stub_def)
    then show ?thesis using s Inr seller_stocks_loop_rest by auto
  qed
qed

lemma seller_stocks_loop_length:
  "seller_stocks_loop ws ids acc = (Inr m, rest) \<Longrightarrow> length m + length rest = length acc + length ids"
proof (induction ws arbitrary: ids acc)
  case Nil
  then show ?case by auto
next
  case (Cons w ws)
  show ?case
  proof (cases "Kod w \<in> set ids")
    case True
    with Cons.prems obtain k where
      "seller_stocks_loop ws (remove1 (Kod w) ids) (acc @ [\<lparr>s_offer_id = Kod w, s_stock = k\<rparr>])
         = (Inr m, rest)"
      by (auto split: sum.splits)
    from Cons.IH[OF this] have
      "length m + length rest = Suc (length acc) + length (remove1 (Kod w) ids)" by simp
    moreover have "0 < length ids" using True by (cases ids) auto
    ultimately show ?thesis using True by (simp add: length_remove1)
  next
    case False
    with Cons.prems have "seller_stocks_loop ws ids acc = (Inr m, rest)" by simp
    from Cons.IH[OF this] show ?thesis .
  qed
qed

lemma seller_create_stocks_distinct:
  assumes "distinct (map Kod feed)"
    and "\<forall>w \<in> set feed. Kod w \<in> set ids \<longrightarrow> normalize_count (Kolichestvo w) = Inr (q w)"
  shows "seller_create_stocks feed ids =
           (Inr (map (\<lambda>w. \<lparr>s_offer_id = Kod w, s_stock = q w\<rparr>) [w \<leftarrow> feed. Kod w \<in> set ids] @
                 map ozon_stub (left_over ids feed)),
            left_over ids feed)"
  using seller_stocks_loop_distinct[OF assms, of "[]"]
  by (simp add: seller_create_stocks_def ozon_stub_def)

lemma create_stocks_raises:
  assumes "distinct (map Kod feed)"
    and "\<exists>w \<in> set feed. Kod w \<in> set ids \<and> normalize_count (Kolichestvo w) = Inl ValueError"
  shows "fst (seller_create_stocks feed ids) = Inl ValueError"
    and "fst (market_create_stocks date feed ids wh) = Inl ValueError"
proof -
  have "fst (seller_stocks_loop feed ids []) = Inl ValueError"
    by (rule seller_stocks_loop_raises[OF assms])
  then show a: "fst (seller_create_stocks feed ids) = Inl ValueError"
    by (cases "seller_stocks_loop feed ids []") (simp add: seller_create_stocks_def)
  show "fst (market_create_stocks date feed ids wh) = Inl ValueError"
    using a by (simp add: market_create_stocks_seller)
qed

text \<open>
  Claim C1, as amended. For a feed whose identifiers are pairwise distinct and whose
  records found in the remote list all have a quantity that normalises (to \<open>q w\<close>),
  \<^verbatim>\<open>create_stocks\<close> returns, in both files: first one entry with the normalised
  quantity for each feed record whose identifier is in the remote list, in feed order;
  then one zero entry for each identifier left in the list, in the list's order. A feed
  record whose identifier is not in the list gives no entry. For a remote list without
  duplicates the identifiers left are those that no feed record carries.
\<close>

theorem create_stocks_outer_join:
  "distinct (map Kod feed) \<and>
   (\<forall>w \<in> set feed. Kod w \<in> set ids \<longrightarrow> normalize_count (Kolichestvo w) = Inr (q w)) \<longrightarrow>
     seller_create_stocks feed ids =
       (Inr (map (\<lambda>w. \<lparr>s_offer_id = Kod w, s_stock = q w\<rparr>) [w \<leftarrow> feed. Kod w \<in> set ids] @
             map ozon_stub (left_over ids feed)),
        left_over ids feed) \<and>
     market_create_stocks date feed ids wh =
       (Inr (map (\<lambda>w. market_entry date wh \<lparr>s_offer_id = Kod w, s_stock = q w\<rparr>)
               [w \<leftarrow> feed. Kod w \<in> set ids] @
             map (\<lambda>offer_id. market_entry date wh (ozon_stub offer_id)) (left_over ids feed)),
        left_over ids feed) \<and>
     (distinct ids \<longrightarrow> left_over ids feed = [x \<leftarrow> ids. x \<notin> Kod ` set feed])"
proof (intro impI, elim conjE)
  assume d: "distinct (map Kod feed)"
    and n: "\<forall>w \<in> set feed. Kod w \<in> set ids \<longrightarrow> normalize_count (Kolichestvo w) = Inr (q w)"
  have s: "seller_create_stocks feed ids =
       (Inr (map (\<lambda>w. \<lparr>s_offer_id = Kod w, s_stock = q w\<rparr>) [w \<leftarrow> feed. Kod w \<in> set ids] @
             map ozon_stub (left_over ids feed)),
        left_over ids feed)"
    by (rule seller_create_stocks_distinct[OF d n])
  have m: "market_create_stocks date feed ids wh =
       (Inr (map (\<lambda>w. market_entry date wh \<lparr>s_offer_id = Kod w, s_stock = q w\<rparr>)
               [w \<leftarrow> feed. Kod w \<in> set ids] @
             map (\<lambda>offer_id. market_entry date wh (ozon_stub offer_id)) (left_over ids feed)),
        left_over ids feed)"
    by (simp add: market_create_stocks_seller s comp_def)
  have l: "distinct ids \<longrightarrow> left_over ids feed = [x \<leftarrow> ids. x \<notin> Kod ` set feed]"
    by (simp add: left_over_distinct)
  from s m l show "seller_create_stocks feed ids =
       (Inr (map (\<lambda>w. \<lparr>s_offer_id = Kod w, s_stock = q w\<rparr>) [w \<leftarrow> feed. Kod w \<in> set ids] @
             map ozon_stub (left_over ids feed)),
        left_over ids feed) \<and>
     market_create_stocks date feed ids wh =
       (Inr (map (\<lambda>w. market_entry date wh \<lparr>s_offer_id = Kod w, s_stock = q w\<rparr>)
               [w \<leftarrow> feed. Kod w \<in> set ids] @
             map (\<lambda>offer_id. market_entry date wh (ozon_stub offer_id)) (left_over ids feed)),
        left_over ids feed) \<and>
     (distinct ids \<longrightarrow> left_over ids feed = [x \<leftarrow> ids. x \<notin> Kod ` set feed])"
    by blast
qed

theorem create_stocks_outer_join_witness:
  "seller_create_stocks
     [\<lparr>Kod = ''123'', Kolichestvo = ''10'', Tsena = []\<rparr>, \<lparr>Kod = ''999'', Kolichestvo = ''5'', Tsena = []\<rparr>]
     [''124'', ''123''] =
   (Inr [\<lparr>s_offer_id = ''123'', s_stock = 10\<rparr>, \<lparr>s_offer_id = ''124'', s_stock = 0\<rparr>], [''124''])"
proof -
  let ?feed = "[\<lparr>Kod = ''123'', Kolichestvo = ''10'', Tsena = []\<rparr>,
                \<lparr>Kod = ''999'', Kolichestvo = ''5'', Tsena = []\<rparr>]"
  let ?ids = "[''124'', ''123'']"
  have d: "distinct (map Kod ?feed)" by simp
  have n: "\<forall>w \<in> set ?feed. Kod w \<in> set ?ids \<longrightarrow> normalize_count (Kolichestvo w) = Inr ((\<lambda>w. 10) w)"
    by (simp add: normalize_count_10)
  have i: "distinct ?ids" by simp
  have f: "[x \<leftarrow> ?ids. x \<notin> Kod ` set ?feed] = [''124'']" by simp
  show ?thesis
    using create_stocks_outer_join [of ?feed ?ids "\<lambda>w. 10" "[]" "[]"] d n i f
    by (simp add: ozon_stub_def)
qed

text \<open>
  Claim C1 as stated fails when two feed records carry one identifier: the first takes
  the identifier out of the list, and the second, whose identifier is in the remote list
  too, gives no entry.
\<close>

theorem create_stocks_duplicate_feed_counterexample:
  "seller_create_stocks
     [\<lparr>Kod = ''123'', Kolichestvo = ''5'', Tsena = []\<rparr>, \<lparr>Kod = ''123'', Kolichestvo = ''7'', Tsena = []\<rparr>]
     [''123''] =
   (Inr [\<lparr>s_offer_id = ''123'', s_stock = 5\<rparr>], [])"
  by (simp add: seller_create_stocks_def normalize_count_5)

text \<open>
  Claim C3, as amended. When \<^verbatim>\<open>create_stocks\<close> returns, the identifier list holds what
  the first loop left: one occurrence is gone for each feed record that matched, and
  the identifiers no feed record consumed are still there, in order. They are the
  identifiers of the zero entries that end the result, and the result has one entry for
  each element the list had at the start. \<^verbatim>\<open>market.create_stocks\<close> leaves the same list. For
  a list without duplicates what is left are the identifiers no feed record carries.
\<close>

theorem create_stocks_working_set:
  "seller_create_stocks feed ids = (Inr out, rest) \<longrightarrow>
     rest = left_over ids feed \<and>
     (distinct ids \<longrightarrow> rest = [x \<leftarrow> ids. x \<notin> Kod ` set feed]) \<and>
     drop (length ids - length rest) out = map ozon_stub rest \<and>
     length out = length ids \<and>
     snd (market_create_stocks date feed ids wh) = rest"
proof
  assume a: "seller_create_stocks feed ids = (Inr out, rest)"
  from seller_create_stocks_rest[OF a] obtain m where
    r: "rest = left_over ids feed" and
    l: "seller_stocks_loop feed ids [] = (Inr m, rest)" and
    o: "out = m @ map ozon_stub rest"
    by blast
  have len: "length m + length rest = length ids"
    using seller_stocks_loop_length[OF l] by simp
  then have "length ids - length rest = length m" by simp
  then have dr: "drop (length ids - length rest) out = map ozon_stub rest" using o by simp
  have lo: "length out = length ids" using o len by simp
  have di: "distinct ids \<longrightarrow> rest = [x \<leftarrow> ids. x \<notin> Kod ` set feed]"
    using r by (simp add: left_over_distinct)
  have mk: "snd (market_create_stocks date feed ids wh) = rest"
    using a by (simp add: market_create_stocks_seller)
  from r di dr lo mk show "rest = left_over ids feed \<and>
     (distinct ids \<longrightarrow> rest = [x \<leftarrow> ids. x \<notin> Kod ` set feed]) \<and>
     drop (length ids - length rest) out = map ozon_stub rest \<and>
     length out = length ids \<and>
     snd (market_create_stocks date feed ids wh) = rest"
    by blast
qed

text \<open>
  Claim C3 as stated fails on its own example: the identifier that no feed record
  carries stays in the list.
\<close>

theorem create_stocks_working_set_counterexample:
  "snd (seller_create_stocks [\<lparr>Kod = ''123'', Kolichestvo = ''10'', Tsena = []\<rparr>] [''123'', ''124'']) =
     [''124'']"
  by (simp add: seller_create_stocks_def normalize_count_10)

theorem create_stocks_working_set_witness:
  "seller_create_stocks [\<lparr>Kod = ''123'', Kolichestvo = ''10'', Tsena = []\<rparr>] [''124'', ''123'', ''125''] =
     (Inr [\<lparr>s_offer_id = ''123'', s_stock = 10\<rparr>, \<lparr>s_offer_id = ''124'', s_stock = 0\<rparr>,
           \<lparr>s_offer_id = ''125'', s_stock = 0\<rparr>], [''124'', ''125'']) \<and>
   left_over [''124'', ''123'', ''125''] [\<lparr>Kod = ''123'', Kolichestvo = ''10'', Tsena = []\<rparr>] =
     [''124'', ''125''] \<and>
   snd (market_create_stocks [] [\<lparr>Kod = ''123'', Kolichestvo = ''10'', Tsena = []\<rparr>]
          [''124'', ''123'', ''125''] []) = [''124'', ''125'']"
proof -
  let ?feed = "[\<lparr>Kod = ''123'', Kolichestvo = ''10'', Tsena = []\<rparr>]"
  let ?ids = "[''124'', ''123'', ''125'']"
  let ?out = "[\<lparr>s_offer_id = ''123'', s_stock = 10\<rparr>, \<lparr>s_offer_id = ''124'', s_stock = 0\<rparr>,
           \<lparr>s_offer_id = ''125'', s_stock = 0\<rparr>]"
  have v: "seller_create_stocks ?feed ?ids = (Inr ?out, [''124'', ''125''])"
    by (simp add: seller_create_stocks_def normalize_count_10)
  show ?thesis
    using create_stocks_working_set [of ?feed ?ids ?out "[''124'', ''125'']" "[]" "[]"] v
    by simp
qed

section \<open>The clock in the stock payload\<close>

lemma redate_market_entry: "redate date' (market_entry date wh s) = market_entry date' wh s"
  by (simp add: redate_def market_entry_def)

text \<open>
  Claim C9, as amended. The result of \<^verbatim>\<open>market.create_stocks\<close> depends on the clock:
  the result at one clock reading is the result at another with every time stamp
  replaced, and the list left behind is the same. So two calls on one feed and one
  remote list agree in everything but \<^verbatim>\<open>updatedAt\<close>, and a result that holds an entry
  is not returned again at a different reading.
\<close>

theorem market_create_stocks_clock:
  "market_create_stocks date' feed ids wh =
     map_prod (map_sum id (map (redate date'))) id (market_create_stocks date feed ids wh) \<and>
   (fst (market_create_stocks date feed ids wh) = Inr out \<and> out \<noteq> [] \<and> date' \<noteq> date \<longrightarrow>
      fst (market_create_stocks date' feed ids wh) \<noteq> Inr out)"
proof -
  obtain r rest where s: "seller_create_stocks feed ids = (r, rest)"
    by (cases "seller_create_stocks feed ids")
  have a: "market_create_stocks date' feed ids wh =
     map_prod (map_sum id (map (redate date'))) id (market_create_stocks date feed ids wh)"
    by (cases r) (simp_all add: market_create_stocks_seller s comp_def redate_market_entry)
  have b: "fst (market_create_stocks date' feed ids wh) \<noteq> Inr out"
    if o: "fst (market_create_stocks date feed ids wh) = Inr out" and ne: "out \<noteq> []"
      and dd: "date' \<noteq> date"
  proof
    assume e: "fst (market_create_stocks date' feed ids wh) = Inr out"
    from o obtain so where so: "r = Inr so" "out = map (market_entry date wh) so"
      by (cases r) (auto simp: market_create_stocks_seller s)
    from e so have "map (market_entry date' wh) so = map (market_entry date wh) so"
      by (simp add: market_create_stocks_seller s)
    moreover obtain x xs where "so = x # xs" using ne so by (cases so) auto
    ultimately have "market_entry date' wh x = market_entry date wh x" by simp
    then show False using dd by (simp add: market_entry_def)
  qed
  from a b show ?thesis by blast
qed

theorem market_create_stocks_clock_witness:
  "market_create_stocks ''2022-12-31T12:00:01Z'' [] [''124''] ''w1'' =
     (Inr [\<lparr>m_sku = ''124'', m_warehouseId = ''w1'',
            m_items = [\<lparr>i_count = 0, i_type = ''FIT'', i_updatedAt = ''2022-12-31T12:00:01Z''\<rparr>]\<rparr>],
      [''124'']) \<and>
   fst (market_create_stocks ''2022-12-31T12:00:01Z'' [] [''124''] ''w1'') \<noteq>
     Inr [\<lparr>m_sku = ''124'', m_warehouseId = ''w1'',
            m_items = [\<lparr>i_count = 0, i_type = ''FIT'', i_updatedAt = ''2022-12-31T12:00:00Z''\<rparr>]\<rparr>]"
proof -
  let ?out = "[\<lparr>m_sku = ''124'', m_warehouseId = ''w1'',
            m_items = [\<lparr>i_count = 0, i_type = ''FIT'', i_updatedAt = ''2022-12-31T12:00:00Z''\<rparr>]\<rparr>]"
  have v: "market_create_stocks ''2022-12-31T12:00:00Z'' [] [''124''] ''w1'' = (Inr ?out, [''124''])"
    by (simp add: market_create_stocks_def)
  have h: "fst (market_create_stocks ''2022-12-31T12:00:00Z'' [] [''124''] ''w1'') = Inr ?out \<and>
      ?out \<noteq> [] \<and> ''2022-12-31T12:00:01Z'' \<noteq> ''2022-12-31T12:00:00Z''"
    using v by simp
  have r: "market_create_stocks ''2022-12-31T12:00:01Z'' [] [''124''] ''w1'' =
      map_prod (map_sum id (map (redate ''2022-12-31T12:00:01Z''))) id (Inr ?out, [''124''])"
    using market_create_stocks_clock [of "''2022-12-31T12:00:01Z''" "[]" "[''124'']" "''w1''"
        "''2022-12-31T12:00:00Z''" ?out] v
    by simp
  have n: "fst (market_create_stocks ''2022-12-31T12:00:01Z'' [] [''124''] ''w1'') \<noteq> Inr ?out"
    using market_create_stocks_clock [of "''2022-12-31T12:00:01Z''" "[]" "[''124'']" "''w1''"
        "''2022-12-31T12:00:00Z''" ?out] h
    by blast
  show ?thesis using r n by (simp add: redate_def)
qed

text \<open>
  Claim C9 as stated fails for the Yandex Market stock payload: one second later the
  same feed and the same remote list give a different payload.
\<close>

theorem market_create_stocks_clock_counterexample:
  "fst (market_create_stocks ''2022-12-31T12:00:00Z'' [] [''124''] ''w1'') \<noteq>
   fst (market_create_stocks ''2022-12-31T12:00:01Z'' [] [''124''] ''w1'')"
  by (simp add: market_create_stocks_def)

section \<open>Properties of the runs\<close>

lemma send_all_take: "\<exists>m. fst (send_all ok rs) = take m rs"
proof (induction rs)
  case Nil
  then show ?case by simp
next
  case (Cons r rs)
  then obtain m where m: "fst (send_all ok rs) = take m rs" by blast
  show ?case
  proof (cases "ok r")
    case True
    then have "fst (send_all ok (r # rs)) = take (Suc m) (r # rs)"
      using m by (cases "send_all ok rs") simp
    then show ?thesis by blast
  next
    case False
    then have "fst (send_all ok (r # rs)) = take 1 (r # rs)" by simp
    then show ?thesis by blast
  qed
qed

lemma send_all_subset: "set (fst (send_all ok rs)) \<subseteq> set rs"
proof -
  obtain m where "fst (send_all ok rs) = take m rs" using send_all_take by blast
  then show ?thesis by (simp add: set_take_subset)
qed

lemma send_all_True: "send_all (\<lambda>_. True) rs = (rs, True)"
  by (induction rs) simp_all

lemma divide_Nil: "n \<noteq> 0 \<Longrightarrow> divide [] n = Inr []"
  by (simp add: divide_def slices_done)

lemma divide_short: "lst \<noteq> [] \<Longrightarrow> int (length lst) \<le> n \<Longrightarrow> divide lst n = Inr [lst]"
proof -
  assume a: "lst \<noteq> []" "int (length lst) \<le> n"
  then have n: "0 < n" by (cases lst) auto
  have l: "length lst \<le> nat n" using a(2) by simp
  have "slices lst (nat n) 0 = take (nat n) (drop 0 lst) # slices lst (nat n) (0 + nat n)"
    using a(1) n by (intro slices_unfold) simp_all
  moreover have "slices lst (nat n) (0 + nat n) = []" using l by (simp add: slices_done)
  ultimately show ?thesis using n l by (simp add: divide_def)
qed

lemma seller_prices_after_stocks:
  assumes "distinct ids" "seller_create_stocks feed ids = (Inr out, rest)"
  shows "seller_create_prices feed rest = ([], rest)"
proof -
  have "rest = [x \<leftarrow> ids. x \<notin> Kod ` set feed]"
    using seller_create_stocks_rest[OF assms(2)] assms(1) by (simp add: left_over_distinct)
  then have "[w \<leftarrow> feed. Kod w \<in> set rest] = []" by (auto simp: filter_empty_conv)
  then show ?thesis by (simp add: seller_create_prices_eq)
qed

lemma seller_run_distinct:
  assumes "distinct ids"
  shows "\<exists>some_stocks. seller_run ok ids feed = map Seller_update_stocks some_stocks"
proof -
  obtain r rest where s: "seller_create_stocks feed ids = (r, rest)"
    by (cases "seller_create_stocks feed ids")
  show ?thesis
  proof (cases r)
    case (Inl e)
    then have "seller_run ok ids feed = map Seller_update_stocks []"
      using s by (simp add: seller_run_def)
    then show ?thesis by blast
  next
    case (Inr out)
    have p: "seller_create_prices feed rest = ([], rest)"
      using seller_prices_after_stocks[OF assms] s Inr by simp
    obtain cs where cs: "divide out 100 = Inr cs" by (simp add: divide_def)
    obtain m where m: "fst (send_all ok (map Seller_update_stocks cs)) =
        take m (map Seller_update_stocks cs)"
      using send_all_take by blast
    obtain sent fin where sf: "send_all ok (map Seller_update_stocks cs) = (sent, fin)"
      by (cases "send_all ok (map Seller_update_stocks cs)")
    have "seller_run ok ids feed = sent"
      using s Inr cs sf p by (cases fin) (simp_all add: seller_run_def divide_Nil)
    also have "sent = map Seller_update_stocks (take m cs)" using m sf by (simp add: take_map)
    finally show ?thesis by blast
  qed
qed

lemma market_campaign_stocks:
  "\<exists>some_stocks. fst (market_campaign remote ok date ids feed wh) = map Market_update_stocks some_stocks"
proof -
  obtain r rest where s: "market_create_stocks date feed ids wh = (r, rest)"
    by (cases "market_create_stocks date feed ids wh")
  show ?thesis
  proof (cases r)
    case (Inl e)
    then have "fst (market_campaign remote ok date ids feed wh) = map Market_update_stocks []"
      using s by (simp add: market_campaign_def)
    then show ?thesis by blast
  next
    case (Inr out)
    obtain cs where cs: "divide out 2000 = Inr cs" by (simp add: divide_def)
    obtain m where m: "fst (send_all ok (map Market_update_stocks cs)) =
        take m (map Market_update_stocks cs)"
      using send_all_take by blast
    obtain sent fin where sf: "send_all ok (map Market_update_stocks cs) = (sent, fin)"
      by (cases "send_all ok (map Market_update_stocks cs)")
    have "fst (market_campaign remote ok date ids feed wh) = sent"
      using s Inr cs sf by (cases fin) (simp_all add: market_campaign_def)
    also have "sent = map Market_update_stocks (take m cs)" using m sf by (simp add: take_map)
    finally show ?thesis by blast
  qed
qed

lemma market_main_stocks:
  assumes "market_main fbs dbs ok d1 d2 feed w1 w2 = Some sent"
  shows "\<exists>some_stocks. sent = map Market_update_stocks some_stocks"
proof -
  from assms obtain ids where i: "market_get_offer_ids fbs = Some ids"
    by (auto simp: market_main_def split: option.splits)
  obtain s1 fin where c1: "market_campaign fbs ok d1 ids feed w1 = (s1, fin)"
    by (cases "market_campaign fbs ok d1 ids feed w1")
  obtain b1 where b1: "s1 = map Market_update_stocks b1"
    using market_campaign_stocks[of fbs ok d1 ids feed w1] c1 by auto
  show ?thesis
  proof (cases fin)
    case False
    then have "sent = s1" using assms i c1 by (simp add: market_main_def)
    then show ?thesis using b1 by blast
  next
    case True
    then obtain ids2 where i2: "market_get_offer_ids dbs = Some ids2"
      using assms i c1 by (auto simp: market_main_def split: option.splits)
    obtain b2 where b2: "fst (market_campaign dbs ok d2 ids2 feed w2) = map Market_update_stocks b2"
      using market_campaign_stocks by blast
    have "sent = s1 @ fst (market_campaign dbs ok d2 ids2 feed w2)"
      using assms i c1 True i2 by (simp add: market_main_def)
    then have "sent = map Market_update_stocks (b1 @ b2)" using b1 b2 by simp
    then show ?thesis by blast
  qed
qed

text \<open>
  Claim C10, as amended. When the list \<^verbatim>\<open>get_offer_ids\<close> returned has no duplicate,
  \<^verbatim>\<open>seller.main\<close> issues no price update: \<^verbatim>\<open>create_prices\<close> gets the list that
  \<^verbatim>\<open>create_stocks\<close> has emptied of every feed identifier, and returns the empty list.
  \<^verbatim>\<open>market.main\<close> issues no price update for any input: it never awaits
  \<^verbatim>\<open>upload_prices\<close>.
\<close>

theorem main_sends_no_price:
  "(distinct ids \<longrightarrow> (\<forall>r \<in> set (seller_run ok ids feed). \<forall>prices. r \<noteq> Seller_update_price prices)) \<and>
   (seller_get_offer_ids remote = Some ids \<and> distinct ids \<longrightarrow>
      (\<exists>sent. seller_main remote ok feed = Some sent \<and>
         (\<forall>r \<in> set sent. \<forall>prices. r \<noteq> Seller_update_price prices))) \<and>
   (market_main fbs dbs ok' d1 d2 feed w1 w2 = Some sent' \<longrightarrow>
      (\<forall>r \<in> set sent'. \<forall>prices. r \<noteq> Market_update_price prices))"
proof -
  have a: "\<forall>r \<in> set (seller_run ok ids feed). \<forall>prices. r \<noteq> Seller_update_price prices"
    if di: "distinct ids"
  proof -
    obtain bs where "seller_run ok ids feed = map Seller_update_stocks bs"
      using seller_run_distinct[OF di] by blast
    then show ?thesis by auto
  qed
  have b: "\<exists>sent. seller_main remote ok feed = Some sent \<and>
         (\<forall>r \<in> set sent. \<forall>prices. r \<noteq> Seller_update_price prices)"
    if "seller_get_offer_ids remote = Some ids" "distinct ids"
    using that a by (simp add: seller_main_def)
  have c: "\<forall>r \<in> set sent'. \<forall>prices. r \<noteq> Market_update_price prices"
    if mm: "market_main fbs dbs ok' d1 d2 feed w1 w2 = Some sent'"
  proof -
    obtain bs where "sent' = map Market_update_stocks bs"
      using market_main_stocks[OF mm] by blast
    then show ?thesis by auto
  qed
  from a b c show ?thesis by blast
qed

lemma seller_get_offer_ids_one_page:
  "o_total (remote 0 []) = int (length (o_items (remote 0 []))) \<Longrightarrow>
   seller_get_offer_ids remote = Some (o_items (remote 0 []))"
  unfolding seller_get_offer_ids_def by (subst seller_pages.simps) (simp add: Let_def)

lemma market_get_offer_ids_one_page:
  "y_nextPageToken (remote 0 []) = None \<or> y_nextPageToken (remote 0 []) = Some [] \<Longrightarrow>
   market_get_offer_ids remote = Some (y_offerMappingEntries (remote 0 []))"
  unfolding market_get_offer_ids_def by (subst market_pages.simps) (auto simp: Let_def)

theorem main_sends_no_price_witness:
  "seller_main (\<lambda>k c. \<lparr>o_items = [''123'', ''124''], o_total = 2, o_last_id = ''124''\<rparr>) (\<lambda>_. True)
     [\<lparr>Kod = ''123'', Kolichestvo = ''10'', Tsena = ''5'990.00''\<rparr>] =
     Some [Seller_update_stocks [\<lparr>s_offer_id = ''123'', s_stock = 10\<rparr>, \<lparr>s_offer_id = ''124'', s_stock = 0\<rparr>]] \<and>
   Seller_update_price [] \<notin>
     set (seller_run (\<lambda>_. True) [''123'', ''124'']
            [\<lparr>Kod = ''123'', Kolichestvo = ''10'', Tsena = ''5'990.00''\<rparr>]) \<and>
   market_main (\<lambda>k c. \<lparr>y_offerMappingEntries = [''123''], y_nextPageToken = None\<rparr>)
     (\<lambda>k c. \<lparr>y_offerMappingEntries = [], y_nextPageToken = Some []\<rparr>) (\<lambda>_. True) ''d1'' ''d2''
     [\<lparr>Kod = ''123'', Kolichestvo = ''10'', Tsena = ''5'990.00''\<rparr>] ''w1'' ''w2'' =
     Some [Market_update_stocks
            [\<lparr>m_sku = ''123'', m_warehouseId = ''w1'',
              m_items = [\<lparr>i_count = 10, i_type = ''FIT'', i_updatedAt = ''d1''\<rparr>]\<rparr>]] \<and>
   Market_update_price [] \<notin>
     set [Market_update_stocks
            [\<lparr>m_sku = ''123'', m_warehouseId = ''w1'',
              m_items = [\<lparr>i_count = 10, i_type = ''FIT'', i_updatedAt = ''d1''\<rparr>]\<rparr>]]"
proof -
  let ?remote = "\<lambda>(k::nat) (c::string). \<lparr>o_items = [''123'', ''124''], o_total = 2, o_last_id = ''124''\<rparr>"
  let ?fbs = "\<lambda>(k::nat) (c::string). \<lparr>y_offerMappingEntries = [''123''], y_nextPageToken = None\<rparr>"
  let ?dbs = "\<lambda>(k::nat) (c::string). \<lparr>y_offerMappingEntries = [], y_nextPageToken = Some []\<rparr>"
  let ?feed = "[\<lparr>Kod = ''123'', Kolichestvo = ''10'', Tsena = ''5'990.00''\<rparr>]"
  let ?ok = "\<lambda>_::seller_request. True"
  let ?ok' = "\<lambda>_::market_request. True"
  let ?stocks = "[\<lparr>s_offer_id = ''123'', s_stock = 10\<rparr>, \<lparr>s_offer_id = ''124'', s_stock = 0\<rparr>]"
  let ?mstocks = "[\<lparr>m_sku = ''123'', m_warehouseId = ''w1'',
              m_items = [\<lparr>i_count = 10, i_type = ''FIT'', i_updatedAt = ''d1''\<rparr>]\<rparr>]"
  have g: "seller_get_offer_ids ?remote = Some [''123'', ''124'']"
    using seller_get_offer_ids_one_page[of ?remote] by simp
  have d: "distinct [''123'', ''124'']" by simp
  have cs: "seller_create_stocks ?feed [''123'', ''124''] = (Inr ?stocks, [''124''])"
    by (simp add: seller_create_stocks_def normalize_count_10)
  have cp: "seller_create_prices ?feed [''124''] = ([], [''124''])"
    by (simp add: seller_create_prices_def)
  have dv: "divide ?stocks 100 = Inr [?stocks]" by (rule divide_short) simp_all
  have run: "seller_run ?ok [''123'', ''124''] ?feed = [Seller_update_stocks ?stocks]"
    by (simp add: seller_run_def cs cp dv divide_Nil)
  have mg1: "market_get_offer_ids ?fbs = Some [''123'']"
    using market_get_offer_ids_one_page[of ?fbs] by simp
  have mg2: "market_get_offer_ids ?dbs = Some []"
    using market_get_offer_ids_one_page[of ?dbs] by simp
  have ms: "market_create_stocks ''d1'' ?feed [''123''] ''w1'' = (Inr ?mstocks, [])"
    by (simp add: market_create_stocks_def normalize_count_10)
  have ms2: "market_create_stocks ''d2'' ?feed [] ''w2'' = (Inr [], [])"
    by (simp add: market_create_stocks_def)
  have mdv: "divide ?mstocks 2000 = Inr [?mstocks]" by (rule divide_short) simp_all
  have mm: "market_main ?fbs ?dbs ?ok' ''d1'' ''d2'' ?feed ''w1'' ''w2'' =
      Some [Market_update_stocks ?mstocks]"
    by (simp add: market_main_def market_campaign_def mg1 mg2 ms ms2 mdv divide_Nil)
  have t: "(\<forall>r \<in> set (seller_run ?ok [''123'', ''124''] ?feed). \<forall>prices. r \<noteq> Seller_update_price prices) \<and>
      (\<exists>sent. seller_main ?remote ?ok ?feed = Some sent \<and>
         (\<forall>r \<in> set sent. \<forall>prices. r \<noteq> Seller_update_price prices)) \<and>
      (\<forall>r \<in> set [Market_update_stocks ?mstocks]. \<forall>prices. r \<noteq> Market_update_price prices)"
    using main_sends_no_price [of "[''123'', ''124'']" ?ok ?feed ?remote ?fbs ?dbs ?ok' "''d1''"
        "''d2''" "''w1''" "''w2''" "[Market_update_stocks ?mstocks]"] g d mm
    by blast
  have sm: "seller_main ?remote ?ok ?feed = Some [Seller_update_stocks ?stocks]"
    by (simp add: seller_main_def g run)
  from t have np: "Seller_update_price [] \<notin> set (seller_run ?ok [''123'', ''124''] ?feed)"
    by blast
  from t have mp: "Market_update_price [] \<notin> set [Market_update_stocks ?mstocks]"
    by blast
  from sm np mm mp show ?thesis by blast
qed

text \<open>
  Claim C10 as stated fails for a remote list that names an identifier twice: the stock
  pass removes one occurrence, the price pass finds the other and a price update with
  one entry is sent.
\<close>

theorem main_sends_price_counterexample:
  "seller_run (\<lambda>_. True) [''123'', ''123'']
     [\<lparr>Kod = ''123'', Kolichestvo = ''10'', Tsena = ''5'990.00''\<rparr>] =
   [Seller_update_stocks [\<lparr>s_offer_id = ''123'', s_stock = 10\<rparr>, \<lparr>s_offer_id = ''123'', s_stock = 0\<rparr>],
    Seller_update_price
      [\<lparr>p_auto_action_enabled = ''UNKNOWN'', p_currency_code = ''RUB'', p_offer_id = ''123'',
        p_old_price = ''0'', p_price = ''5990''\<rparr>]]"
proof -
  let ?feed = "[\<lparr>Kod = ''123'', Kolichestvo = ''10'', Tsena = ''5'990.00''\<rparr>]"
  let ?stocks = "[\<lparr>s_offer_id = ''123'', s_stock = 10\<rparr>, \<lparr>s_offer_id = ''123'', s_stock = 0\<rparr>]"
  let ?prices = "[\<lparr>p_auto_action_enabled = ''UNKNOWN'', p_currency_code = ''RUB'', p_offer_id = ''123'',
        p_old_price = ''0'', p_price = ''5990''\<rparr>]"
  have cs: "seller_create_stocks ?feed [''123'', ''123''] = (Inr ?stocks, [''123''])"
    by (simp add: seller_create_stocks_def normalize_count_10)
  have cp: "seller_create_prices ?feed [''123''] = (?prices, [''123''])"
    by (simp add: seller_create_prices_def price_conversion_def is_digit_def)
  have dv: "divide ?stocks 100 = Inr [?stocks]" by (rule divide_short) simp_all
  have dp: "divide ?prices 900 = Inr [?prices]" by (rule divide_short) simp_all
  show ?thesis by (simp add: seller_run_def cs cp dv dp)
qed

section \<open>Properties of pagination\<close>

lemma seller_seen_Suc: "seller_seen r (Suc k) = seller_seen r k @ o_items (seller_reply r k)"
  by (simp add: seller_seen_def)

lemma market_seen_Suc:
  "market_seen r (Suc k) = market_seen r k @ y_offerMappingEntries (market_reply r k)"
  by (simp add: market_seen_def)

lemma seller_pages_step:
  "seller_pages r k (seller_cursor r k) (seller_seen r k) =
     (if seller_total_reached r k then Some (seller_seen r (Suc k))
      else seller_pages r (Suc k) (seller_cursor r (Suc k)) (seller_seen r (Suc k)))"
  by (subst seller_pages.simps)
    (simp add: Let_def seller_total_reached_def seller_seen_Suc seller_reply_def)

lemma market_pages_step:
  "market_pages r k (market_cursor r k) (market_seen r k) =
     (if market_token_empty r k then Some (market_seen r (Suc k))
      else market_pages r (Suc k) (market_cursor r (Suc k)) (market_seen r (Suc k)))"
  by (subst market_pages.simps)
    (auto simp: Let_def market_token_empty_def market_seen_Suc market_reply_def
      split: option.splits)

lemma seller_pages_stops:
  "seller_total_reached r n \<Longrightarrow> \<forall>j. k \<le> j \<and> j < n \<longrightarrow> \<not> seller_total_reached r j \<Longrightarrow> k \<le> n \<Longrightarrow>
   seller_pages r k (seller_cursor r k) (seller_seen r k) = Some (seller_seen r (Suc n))"
proof (induction "n - k" arbitrary: k)
  case 0
  then have "k = n" by simp
  then show ?case using "0.prems"(1) by (simp add: seller_pages_step)
next
  case (Suc d)
  then have lt: "k < n" by simp
  then have nr: "\<not> seller_total_reached r k" using Suc.prems(2) by simp
  have "seller_pages r (Suc k) (seller_cursor r (Suc k)) (seller_seen r (Suc k)) =
      Some (seller_seen r (Suc n))"
  proof (rule Suc.hyps(1))
    show "d = n - Suc k" using Suc.hyps(2) by simp
    show "seller_total_reached r n" by (rule Suc.prems(1))
    show "\<forall>j. Suc k \<le> j \<and> j < n \<longrightarrow> \<not> seller_total_reached r j" using Suc.prems(2) by simp
    show "Suc k \<le> n" using lt by simp
  qed
  then show ?case using nr by (simp add: seller_pages_step)
qed

lemma market_pages_stops:
  "market_token_empty r n \<Longrightarrow> \<forall>j. k \<le> j \<and> j < n \<longrightarrow> \<not> market_token_empty r j \<Longrightarrow> k \<le> n \<Longrightarrow>
   market_pages r k (market_cursor r k) (market_seen r k) = Some (market_seen r (Suc n))"
proof (induction "n - k" arbitrary: k)
  case 0
  then have "k = n" by simp
  then show ?case using "0.prems"(1) by (simp add: market_pages_step)
next
  case (Suc d)
  then have lt: "k < n" by simp
  then have nr: "\<not> market_token_empty r k" using Suc.prems(2) by simp
  have "market_pages r (Suc k) (market_cursor r (Suc k)) (market_seen r (Suc k)) =
      Some (market_seen r (Suc n))"
  proof (rule Suc.hyps(1))
    show "d = n - Suc k" using Suc.hyps(2) by simp
    show "market_token_empty r n" by (rule Suc.prems(1))
    show "\<forall>j. Suc k \<le> j \<and> j < n \<longrightarrow> \<not> market_token_empty r j" using Suc.prems(2) by simp
    show "Suc k \<le> n" using lt by simp
  qed
  then show ?case using nr by (simp add: market_pages_step)
qed

lemma seller_pages_returns:
  assumes "seller_pages r k c acc = Some y"
  shows "c = seller_cursor r k \<and> acc = seller_seen r k \<longrightarrow> (\<exists>n \<ge> k. seller_total_reached r n)"
  apply (rule seller_pages.raw_induct
      [where P = "\<lambda>r k c acc y. c = seller_cursor r k \<and> acc = seller_seen r k \<longrightarrow>
                   (\<exists>n \<ge> k. seller_total_reached r n)", OF _ assms])
  subgoal premises prems for f r k c acc y
  proof
    assume e: "c = seller_cursor r k \<and> acc = seller_seen r k"
    then have c: "c = seller_cursor r k" and a: "acc = seller_seen r k" by simp_all
    have b: "(if seller_total_reached r k then Some (seller_seen r (Suc k))
              else f r (Suc k) (seller_cursor r (Suc k)) (seller_seen r (Suc k))) = Some y"
      using prems(2) unfolding c a
      by (simp add: Let_def seller_total_reached_def seller_seen_Suc seller_reply_def
          split: if_splits)
    show "\<exists>n \<ge> k. seller_total_reached r n"
    proof (cases "seller_total_reached r k")
      case True
      then show ?thesis by blast
    next
      case False
      then have "f r (Suc k) (seller_cursor r (Suc k)) (seller_seen r (Suc k)) = Some y"
        using b by simp
      then have "seller_cursor r (Suc k) = seller_cursor r (Suc k) \<and>
          seller_seen r (Suc k) = seller_seen r (Suc k) \<longrightarrow> (\<exists>n \<ge> Suc k. seller_total_reached r n)"
        by (rule prems(1))
      then obtain n where "Suc k \<le> n" "seller_total_reached r n" by blast
      then have "k \<le> n \<and> seller_total_reached r n" by simp
      then show ?thesis by blast
    qed
  qed
  done

lemma market_pages_returns:
  assumes "market_pages r k c acc = Some y"
  shows "c = market_cursor r k \<and> acc = market_seen r k \<longrightarrow> (\<exists>n \<ge> k. market_token_empty r n)"
  apply (rule market_pages.raw_induct
      [where P = "\<lambda>r k c acc y. c = market_cursor r k \<and> acc = market_seen r k \<longrightarrow>
                   (\<exists>n \<ge> k. market_token_empty r n)", OF _ assms])
  subgoal premises prems for f r k c acc y
  proof
    assume e: "c = market_cursor r k \<and> acc = market_seen r k"
    then have c: "c = market_cursor r k" and a: "acc = market_seen r k" by simp_all
    have b: "(if market_token_empty r k then Some (market_seen r (Suc k))
              else f r (Suc k) (market_cursor r (Suc k)) (market_seen r (Suc k))) = Some y"
      using prems(2) unfolding c a
      by (simp add: Let_def market_token_empty_def market_seen_Suc market_reply_def
          split: if_splits option.splits)
    show "\<exists>n \<ge> k. market_token_empty r n"
    proof (cases "market_token_empty r k")
      case True
      then show ?thesis by blast
    next
      case False
      then have "f r (Suc k) (market_cursor r (Suc k)) (market_seen r (Suc k)) = Some y"
        using b by simp
      then have "market_cursor r (Suc k) = market_cursor r (Suc k) \<and>
          market_seen r (Suc k) = market_seen r (Suc k) \<longrightarrow> (\<exists>n \<ge> Suc k. market_token_empty r n)"
        by (rule prems(1))
      then obtain n where "Suc k \<le> n" "market_token_empty r n" by blast
      then have "k \<le> n \<and> market_token_empty r n" by simp
      then show ?thesis by blast
    qed
  qed
  done

lemma seller_get_offer_ids_stops:
  "seller_total_reached r n \<Longrightarrow> \<forall>j < n. \<not> seller_total_reached r j \<Longrightarrow>
   seller_get_offer_ids r = Some (seller_seen r (Suc n))"
  using seller_pages_stops[of r n 0]
  by (simp add: seller_get_offer_ids_def seller_seen_def)

lemma seller_get_offer_ids_runs_on:
  "\<forall>n. \<not> seller_total_reached r n \<Longrightarrow> seller_get_offer_ids r = None"
proof (rule ccontr)
  assume a: "\<forall>n. \<not> seller_total_reached r n" and "seller_get_offer_ids r \<noteq> None"
  then obtain y where "seller_pages r 0 [] [] = Some y"
    by (auto simp: seller_get_offer_ids_def)
  from seller_pages_returns[OF this] have "\<exists>n \<ge> 0. seller_total_reached r n"
    by (simp add: seller_seen_def)
  with a show False by blast
qed

lemma market_get_offer_ids_stops:
  "market_token_empty r n \<Longrightarrow> \<forall>j < n. \<not> market_token_empty r j \<Longrightarrow>
   market_get_offer_ids r = Some (market_seen r (Suc n))"
  using market_pages_stops[of r n 0]
  by (simp add: market_get_offer_ids_def market_seen_def)

lemma market_get_offer_ids_runs_on:
  "\<forall>n. \<not> market_token_empty r n \<Longrightarrow> market_get_offer_ids r = None"
proof (rule ccontr)
  assume a: "\<forall>n. \<not> market_token_empty r n" and "market_get_offer_ids r \<noteq> None"
  then obtain y where "market_pages r 0 [] [] = Some y"
    by (auto simp: market_get_offer_ids_def)
  from market_pages_returns[OF this] have "\<exists>n \<ge> 0. market_token_empty r n"
    by (simp add: market_seen_def)
  with a show False by blast
qed

text \<open>
  Claim C5. Asked as \<^verbatim>\<open>get_offer_ids\<close> asks it, a remote side produces a sequence of
  pages. The Yandex Market loop returns at the first page whose continuation token is
  absent or empty, and the Ozon loop at the first page after which the number of
  accumulated entries equals the page's \<^verbatim>\<open>total\<close>; each returns the identifiers of all
  pages up to that one, in order. When no page of the sequence meets the condition the
  loop never returns.
\<close>

theorem get_offer_ids_termination:
  "(market_token_empty m n \<and> (\<forall>j < n. \<not> market_token_empty m j) \<longrightarrow>
      market_get_offer_ids m = Some (market_seen m (Suc n))) \<and>
   ((\<forall>j. \<not> market_token_empty m j) \<longrightarrow> market_get_offer_ids m = None) \<and>
   (seller_total_reached r n \<and> (\<forall>j < n. \<not> seller_total_reached r j) \<longrightarrow>
      seller_get_offer_ids r = Some (seller_seen r (Suc n))) \<and>
   ((\<forall>j. \<not> seller_total_reached r j) \<longrightarrow> seller_get_offer_ids r = None)"
  using market_get_offer_ids_stops[of m n] market_get_offer_ids_runs_on[of m]
    seller_get_offer_ids_stops[of r n] seller_get_offer_ids_runs_on[of r]
  by blast

lemma seller_seen_empty_pages:
  "\<forall>k c. o_items (r k c) = [] \<Longrightarrow> seller_seen r n = []"
  by (simp add: seller_seen_def seller_reply_def)

theorem get_offer_ids_termination_witness:
  "market_get_offer_ids
     (\<lambda>k c. if c = [] then \<lparr>y_offerMappingEntries = [''123''], y_nextPageToken = Some ''t1''\<rparr>
             else \<lparr>y_offerMappingEntries = [''124''], y_nextPageToken = None\<rparr>) =
     Some [''123'', ''124''] \<and>
   market_get_offer_ids (\<lambda>k c. \<lparr>y_offerMappingEntries = [], y_nextPageToken = Some ''t1''\<rparr>) = None \<and>
   seller_get_offer_ids
     (\<lambda>k c. if c = [] then \<lparr>o_items = [''123''], o_total = 2, o_last_id = ''123''\<rparr>
             else \<lparr>o_items = [''124''], o_total = 2, o_last_id = ''124''\<rparr>) =
     Some [''123'', ''124''] \<and>
   seller_get_offer_ids (\<lambda>k c. \<lparr>o_items = [], o_total = 5, o_last_id = []\<rparr>) = None"
proof -
  let ?m = "\<lambda>(k::nat) (c::string).
      if c = [] then \<lparr>y_offerMappingEntries = [''123''], y_nextPageToken = Some ''t1''\<rparr>
      else \<lparr>y_offerMappingEntries = [''124''], y_nextPageToken = None\<rparr>"
  let ?m' = "\<lambda>(k::nat) (c::string). \<lparr>y_offerMappingEntries = [], y_nextPageToken = Some ''t1''\<rparr>"
  let ?r = "\<lambda>(k::nat) (c::string).
      if c = [] then \<lparr>o_items = [''123''], o_total = 2, o_last_id = ''123''\<rparr>
      else \<lparr>o_items = [''124''], o_total = 2, o_last_id = ''124''\<rparr>"
  let ?r' = "\<lambda>(k::nat) (c::string). \<lparr>o_items = [], o_total = 5::int, o_last_id = []\<rparr>"
  have m1: "market_token_empty ?m (Suc 0)"
    by (simp add: market_token_empty_def market_reply_def)
  have m0: "\<forall>j < Suc 0. \<not> market_token_empty ?m j"
    by (simp add: market_token_empty_def market_reply_def)
  have ms: "market_seen ?m (Suc (Suc 0)) = [''123'', ''124'']"
    by (simp add: market_seen_def market_reply_def)
  have mn: "\<forall>j. \<not> market_token_empty ?m' j"
    by (simp add: market_token_empty_def market_reply_def)
  have r1: "seller_total_reached ?r (Suc 0)"
    by (simp add: seller_total_reached_def seller_seen_def seller_reply_def)
  have r0: "\<forall>j < Suc 0. \<not> seller_total_reached ?r j"
    by (simp add: seller_total_reached_def seller_seen_def seller_reply_def)
  have rs: "seller_seen ?r (Suc (Suc 0)) = [''123'', ''124'']"
    by (simp add: seller_seen_def seller_reply_def)
  have "seller_seen ?r' n = []" for n
    by (rule seller_seen_empty_pages) simp
  then have rn: "\<forall>j. \<not> seller_total_reached ?r' j"
    by (simp add: seller_total_reached_def seller_reply_def)
  have a: "market_get_offer_ids ?m = Some [''123'', ''124'']"
    using get_offer_ids_termination [of ?m "Suc 0" ?r] m1 m0 ms by simp
  have b: "seller_get_offer_ids ?r = Some [''123'', ''124'']"
    using get_offer_ids_termination [of ?m "Suc 0" ?r] r1 r0 rs by simp
  have c: "market_get_offer_ids ?m' = None"
    using get_offer_ids_termination [of ?m' 0 ?r'] mn by blast
  have d: "seller_get_offer_ids ?r' = None"
    using get_offer_ids_termination [of ?m' 0 ?r'] rn by blast
  from a c b d show ?thesis by blast
qed

section \<open>Properties of the batches\<close>

lemma slices_batched: "0 < n \<Longrightarrow> batched n (slices lst n i)"
proof (induction lst n i rule: slices.induct)
  case (1 lst n i)
  show ?case
  proof (cases "i < length lst")
    case False
    then show ?thesis by (simp add: slices_done)
  next
    case True
    have u: "slices lst n i = take n (drop i lst) # slices lst n (i + n)"
      using True "1.prems" by (simp add: slices_unfold)
    show ?thesis
    proof (cases "i + n < length lst")
      case False
      then have "slices lst n (i + n) = []" by (simp add: slices_done)
      then show ?thesis using u True "1.prems" by simp
    next
      case lt: True
      then have "slices lst n (i + n) \<noteq> []" using "1.prems" by (simp add: slices_Nil_iff)
      then obtain c bs where r: "slices lst n (i + n) = c # bs"
        by (cases "slices lst n (i + n)") auto
      have "batched n (slices lst n (i + n))" using "1.IH" True "1.prems" by simp
      then show ?thesis using u r lt by simp
    qed
  qed
qed

lemma batched_take: "0 < n \<Longrightarrow> batched n bs \<Longrightarrow> batched n (take m bs)"
proof (induction n bs arbitrary: m rule: batched.induct)
  case (1 n)
  then show ?case by simp
next
  case (2 n b)
  then show ?case by (cases m) simp_all
next
  case (3 n b c bs)
  show ?case
  proof (cases m)
    case 0
    then show ?thesis by simp
  next
    case (Suc m')
    show ?thesis
    proof (cases m')
      case 0
      then show ?thesis using Suc "3.prems" by auto
    next
      case (Suc m'')
      have "batched n (take (Suc m'') (c # bs))"
        using "3.IH"[of "Suc m''"] "3.prems" by simp
      then show ?thesis using \<open>m = Suc m'\<close> Suc "3.prems" by simp
    qed
  qed
qed

lemma send_divide_batched:
  assumes "0 < n" "divide xs n = Inr cs"
  shows "\<exists>bs. fst (send_all ok (map C cs)) = map C bs \<and> batched (nat n) bs"
proof -
  have cs: "cs = slices xs (nat n) 0" using assms by (simp add: divide_def)
  have b: "batched (nat n) cs" unfolding cs using assms(1) by (intro slices_batched) simp
  obtain m where "fst (send_all ok (map C cs)) = take m (map C cs)"
    using send_all_take by blast
  then have "fst (send_all ok (map C cs)) = map C (take m cs)" by (simp add: take_map)
  moreover have "batched (nat n) (take m cs)" using b assms(1) by (intro batched_take) simp_all
  ultimately show ?thesis by blast
qed

lemma seller_run_batched:
  "\<exists>sb pb. seller_run ok ids feed = map Seller_update_stocks sb @ map Seller_update_price pb \<and>
           batched 100 sb \<and> batched 900 pb"
proof -
  obtain r rest where s: "seller_create_stocks feed ids = (r, rest)"
    by (cases "seller_create_stocks feed ids")
  show ?thesis
  proof (cases r)
    case (Inl e)
    then have "seller_run ok ids feed = map Seller_update_stocks [] @ map Seller_update_price []"
      using s by (simp add: seller_run_def)
    moreover have "batched 100 ([]::ozon_stock list list)" "batched 900 ([]::ozon_price list list)"
      by simp_all
    ultimately show ?thesis by blast
  next
    case (Inr out)
    obtain cs where cs: "divide out 100 = Inr cs" by (simp add: divide_def)
    obtain sb where sb: "fst (send_all ok (map Seller_update_stocks cs)) = map Seller_update_stocks sb"
      "batched (nat 100) sb"
      using send_divide_batched[OF _ cs, of ok Seller_update_stocks] by auto
    obtain sent fin where sf: "send_all ok (map Seller_update_stocks cs) = (sent, fin)"
      by (cases "send_all ok (map Seller_update_stocks cs)")
    obtain prices rest' where p: "seller_create_prices feed rest = (prices, rest')"
      by (cases "seller_create_prices feed rest")
    obtain pcs where pcs: "divide prices 900 = Inr pcs" by (simp add: divide_def)
    obtain pb where pb: "fst (send_all ok (map Seller_update_price pcs)) = map Seller_update_price pb"
      "batched (nat 900) pb"
      using send_divide_batched[OF _ pcs, of ok Seller_update_price] by auto
    show ?thesis
    proof (cases fin)
      case False
      then have "seller_run ok ids feed = map Seller_update_stocks sb @ map Seller_update_price []"
        using s Inr cs sf sb by (simp add: seller_run_def)
      then show ?thesis using sb(2)
        by (intro exI[of _ sb] exI[of _ "[]"]) simp
    next
      case True
      then have "seller_run ok ids feed = map Seller_update_stocks sb @ map Seller_update_price pb"
        using s Inr cs sf sb p pcs pb by (simp add: seller_run_def)
      then show ?thesis using sb(2) pb(2)
        by (intro exI[of _ sb] exI[of _ pb]) simp
    qed
  qed
qed

lemma market_campaign_batched:
  "\<exists>sb. fst (market_campaign remote ok date ids feed wh) = map Market_update_stocks sb \<and>
        batched 2000 sb"
proof -
  obtain r rest where s: "market_create_stocks date feed ids wh = (r, rest)"
    by (cases "market_create_stocks date feed ids wh")
  show ?thesis
  proof (cases r)
    case (Inl e)
    then have "fst (market_campaign remote ok date ids feed wh) = map Market_update_stocks []"
      using s by (simp add: market_campaign_def)
    moreover have "batched 2000 ([]::market_stock list list)" by simp
    ultimately show ?thesis by blast
  next
    case (Inr out)
    obtain cs where cs: "divide out 2000 = Inr cs" by (simp add: divide_def)
    obtain sb where sb: "fst (send_all ok (map Market_update_stocks cs)) = map Market_update_stocks sb"
      "batched (nat 2000) sb"
      using send_divide_batched[OF _ cs, of ok Market_update_stocks] by auto
    obtain sent fin where sf: "send_all ok (map Market_update_stocks cs) = (sent, fin)"
      by (cases "send_all ok (map Market_update_stocks cs)")
    have "fst (market_campaign remote ok date ids feed wh) = map Market_update_stocks sb"
      using s Inr cs sf sb by (cases fin) (simp_all add: market_campaign_def)
    then show ?thesis using sb(2) by auto
  qed
qed

lemma market_main_batched:
  assumes "market_main fbs dbs ok d1 d2 feed w1 w2 = Some sent"
  shows "\<exists>b1 b2. sent = map Market_update_stocks b1 @ map Market_update_stocks b2 \<and>
           batched 2000 b1 \<and> batched 2000 b2"
proof -
  from assms obtain ids where i: "market_get_offer_ids fbs = Some ids"
    by (auto simp: market_main_def split: option.splits)
  obtain s1 fin where c1: "market_campaign fbs ok d1 ids feed w1 = (s1, fin)"
    by (cases "market_campaign fbs ok d1 ids feed w1")
  obtain b1 where b1: "s1 = map Market_update_stocks b1" "batched 2000 b1"
    using market_campaign_batched[of fbs ok d1 ids feed w1] c1 by auto
  have e: "batched 2000 ([]::market_stock list list)" by simp
  show ?thesis
  proof (cases fin)
    case False
    then have "sent = map Market_update_stocks b1 @ map Market_update_stocks []"
      using assms i c1 b1 by (simp add: market_main_def)
    then show ?thesis using b1(2) e by blast
  next
    case True
    then obtain ids2 where i2: "market_get_offer_ids dbs = Some ids2"
      using assms i c1 by (auto simp: market_main_def split: option.splits)
    obtain b2 where b2: "fst (market_campaign dbs ok d2 ids2 feed w2) = map Market_update_stocks b2"
      "batched 2000 b2"
      using market_campaign_batched by blast
    have "sent = s1 @ fst (market_campaign dbs ok d2 ids2 feed w2)"
      using assms i c1 True i2 by (simp add: market_main_def)
    then have "sent = map Market_update_stocks b1 @ map Market_update_stocks b2"
      using b1 b2 by simp
    then show ?thesis using b1(2) b2(2) by blast
  qed
qed

lemma market_upload_prices_batched:
  assumes "market_upload_prices remote ok feed = Some sent"
  shows "\<exists>pb. sent = map Market_update_price pb \<and> batched 500 pb"
proof -
  from assms obtain ids where i: "market_get_offer_ids remote = Some ids"
    by (auto simp: market_upload_prices_def split: option.splits)
  obtain r rest where p: "market_create_prices feed ids = (r, rest)"
    by (cases "market_create_prices feed ids")
  have e: "batched 500 ([]::market_price list list)" by simp
  show ?thesis
  proof (cases r)
    case (Inl err)
    then have "sent = map Market_update_price []"
      using assms i p by (simp add: market_upload_prices_def)
    then show ?thesis using e by blast
  next
    case (Inr prices)
    obtain cs where cs: "divide prices 500 = Inr cs" by (simp add: divide_def)
    obtain pb where pb: "fst (send_all ok (map Market_update_price cs)) = map Market_update_price pb"
      "batched (nat 500) pb"
      using send_divide_batched[OF _ cs, of ok Market_update_price] by auto
    have "sent = map Market_update_price pb"
      using assms i p Inr cs pb by (simp add: market_upload_prices_def)
    then show ?thesis using pb(2) by auto
  qed
qed

lemma market_upload_stocks_batched:
  assumes "market_upload_stocks remote ok date feed wh = Some sent"
  shows "\<exists>sb. sent = map Market_update_stocks sb \<and> batched 2000 sb"
proof -
  from assms obtain ids where i: "market_get_offer_ids remote = Some ids"
    by (auto simp: market_upload_stocks_def split: option.splits)
  obtain r rest where p: "market_create_stocks date feed ids wh = (r, rest)"
    by (cases "market_create_stocks date feed ids wh")
  have e: "batched 2000 ([]::market_stock list list)" by simp
  show ?thesis
  proof (cases r)
    case (Inl err)
    then have "sent = map Market_update_stocks []"
      using assms i p by (simp add: market_upload_stocks_def)
    then show ?thesis using e by blast
  next
    case (Inr stocks)
    obtain cs where cs: "divide stocks 2000 = Inr cs" by (simp add: divide_def)
    obtain sb where sb: "fst (send_all ok (map Market_update_stocks cs)) = map Market_update_stocks sb"
      "batched (nat 2000) sb"
      using send_divide_batched[OF _ cs, of ok Market_update_stocks] by auto
    have "sent = map Market_update_stocks sb"
      using assms i p Inr cs sb by (simp add: market_upload_stocks_def)
    then show ?thesis using sb(2) by auto
  qed
qed

lemma seller_upload_prices_batched:
  assumes "seller_upload_prices remote ok feed = Some sent"
  shows "\<exists>pb. sent = map Seller_update_price pb \<and> batched 1000 pb"
proof -
  from assms obtain ids where i: "seller_get_offer_ids remote = Some ids"
    by (auto simp: seller_upload_prices_def split: option.splits)
  obtain prices rest where p: "seller_create_prices feed ids = (prices, rest)"
    by (cases "seller_create_prices feed ids")
  obtain cs where cs: "divide prices 1000 = Inr cs" by (simp add: divide_def)
  obtain pb where pb: "fst (send_all ok (map Seller_update_price cs)) = map Seller_update_price pb"
    "batched (nat 1000) pb"
    using send_divide_batched[OF _ cs, of ok Seller_update_price] by auto
  have "sent = map Seller_update_price pb"
    using assms i p cs pb by (simp add: seller_upload_prices_def)
  then show ?thesis using pb(2) by auto
qed

lemma seller_upload_stocks_batched:
  assumes "seller_upload_stocks remote ok feed = Some sent"
  shows "\<exists>sb. sent = map Seller_update_stocks sb \<and> batched 100 sb"
proof -
  from assms obtain ids where i: "seller_get_offer_ids remote = Some ids"
    by (auto simp: seller_upload_stocks_def split: option.splits)
  obtain r rest where p: "seller_create_stocks feed ids = (r, rest)"
    by (cases "seller_create_stocks feed ids")
  have e: "batched 100 ([]::ozon_stock list list)" by simp
  show ?thesis
  proof (cases r)
    case (Inl err)
    then have "sent = map Seller_update_stocks []"
      using assms i p by (simp add: seller_upload_stocks_def)
    then show ?thesis using e by blast
  next
    case (Inr stocks)
    obtain cs where cs: "divide stocks 100 = Inr cs" by (simp add: divide_def)
    obtain sb where sb: "fst (send_all ok (map Seller_update_stocks cs)) = map Seller_update_stocks sb"
      "batched (nat 100) sb"
      using send_divide_batched[OF _ cs, of ok Seller_update_stocks] by auto
    have "sent = map Seller_update_stocks sb"
      using assms i p Inr cs sb by (simp add: seller_upload_stocks_def)
    then show ?thesis using sb(2) by auto
  qed
qed

text \<open>
  Claim C6, as amended. The batches a run sends are those of \<open>divide\<close>, up to the first
  request that fails, so each sequence respects the size given at its call site, with
  only its last batch allowed to be shorter: 100 stock entries and 900 price entries in
  \<^verbatim>\<open>seller.main\<close>, 100 stock entries in \<^verbatim>\<open>seller.upload_stocks\<close>, 2000 stock entries in
  \<^verbatim>\<open>market.main\<close> (for each campaign) and \<^verbatim>\<open>market.upload_stocks\<close>, 500 price entries
  in \<^verbatim>\<open>market.upload_prices\<close>. \<^verbatim>\<open>seller.upload_prices\<close> sends up to 1000 price
  entries in one call.
\<close>

theorem batches_within_limits:
  "(\<exists>sb pb. seller_run ok ids feed = map Seller_update_stocks sb @ map Seller_update_price pb \<and>
            batched 100 sb \<and> batched 900 pb) \<and>
   (seller_upload_stocks sremote ok feed = Some s1 \<longrightarrow>
      (\<exists>sb. s1 = map Seller_update_stocks sb \<and> batched 100 sb)) \<and>
   (seller_upload_prices sremote ok feed = Some s2 \<longrightarrow>
      (\<exists>pb. s2 = map Seller_update_price pb \<and> batched 1000 pb)) \<and>
   (market_main fbs dbs ok' d1 d2 feed w1 w2 = Some s3 \<longrightarrow>
      (\<exists>b1 b2. s3 = map Market_update_stocks b1 @ map Market_update_stocks b2 \<and>
               batched 2000 b1 \<and> batched 2000 b2)) \<and>
   (market_upload_stocks mremote ok' d1 feed w1 = Some s4 \<longrightarrow>
      (\<exists>sb. s4 = map Market_update_stocks sb \<and> batched 2000 sb)) \<and>
   (market_upload_prices mremote ok' feed = Some s5 \<longrightarrow>
      (\<exists>pb. s5 = map Market_update_price pb \<and> batched 500 pb))"
  using seller_run_batched[of ok ids feed]
    seller_upload_stocks_batched[of sremote ok feed s1]
    seller_upload_prices_batched[of sremote ok feed s2]
    market_main_batched[of fbs dbs ok' d1 d2 feed w1 w2 s3]
    market_upload_stocks_batched[of mremote ok' d1 feed w1 s4]
    market_upload_prices_batched[of mremote ok' feed s5]
  by blast

theorem batches_within_limits_witness:
  "(\<exists>sb pb. [Seller_update_stocks [\<lparr>s_offer_id = ''123'', s_stock = 10\<rparr>, \<lparr>s_offer_id = ''124'', s_stock = 0\<rparr>]] =
              map Seller_update_stocks sb @ map Seller_update_price pb \<and>
            batched 100 sb \<and> batched 900 pb) \<and>
   (\<exists>pb. [Seller_update_price
            [\<lparr>p_auto_action_enabled = ''UNKNOWN'', p_currency_code = ''RUB'', p_offer_id = ''123'',
              p_old_price = ''0'', p_price = ''5990''\<rparr>]] = map Seller_update_price pb \<and>
         batched 1000 pb) \<and>
   (\<exists>b1 b2. [Market_update_stocks
               [\<lparr>m_sku = ''123'', m_warehouseId = ''w1'',
                 m_items = [\<lparr>i_count = 10, i_type = ''FIT'', i_updatedAt = ''d1''\<rparr>]\<rparr>]] =
              map Market_update_stocks b1 @ map Market_update_stocks b2 \<and>
            batched 2000 b1 \<and> batched 2000 b2) \<and>
   (\<exists>pb. [Market_update_price [\<lparr>mp_id = ''123'', mp_price = \<lparr>v_value = 5990, v_currencyId = ''RUR''\<rparr>\<rparr>]] =
           map Market_update_price pb \<and> batched 500 pb)"
proof -
  let ?sremote = "\<lambda>(k::nat) (c::string). \<lparr>o_items = [''123'', ''124''], o_total = 2, o_last_id = ''124''\<rparr>"
  let ?fbs = "\<lambda>(k::nat) (c::string). \<lparr>y_offerMappingEntries = [''123''], y_nextPageToken = None\<rparr>"
  let ?dbs = "\<lambda>(k::nat) (c::string). \<lparr>y_offerMappingEntries = [], y_nextPageToken = Some []\<rparr>"
  let ?feed = "[\<lparr>Kod = ''123'', Kolichestvo = ''10'', Tsena = ''5'990.00''\<rparr>]"
  let ?ok = "\<lambda>_::seller_request. True"
  let ?ok' = "\<lambda>_::market_request. True"
  let ?stocks = "[\<lparr>s_offer_id = ''123'', s_stock = 10\<rparr>, \<lparr>s_offer_id = ''124'', s_stock = 0\<rparr>]"
  let ?prices = "[\<lparr>p_auto_action_enabled = ''UNKNOWN'', p_currency_code = ''RUB'', p_offer_id = ''123'',
              p_old_price = ''0'', p_price = ''5990''\<rparr>]"
  let ?mstocks = "[\<lparr>m_sku = ''123'', m_warehouseId = ''w1'',
              m_items = [\<lparr>i_count = 10, i_type = ''FIT'', i_updatedAt = ''d1''\<rparr>]\<rparr>]"
  let ?mprices = "[\<lparr>mp_id = ''123'', mp_price = \<lparr>v_value = 5990, v_currencyId = ''RUR''\<rparr>\<rparr>]"
  have g: "seller_get_offer_ids ?sremote = Some [''123'', ''124'']"
    using seller_get_offer_ids_one_page[of ?sremote] by simp
  have cs: "seller_create_stocks ?feed [''123'', ''124''] = (Inr ?stocks, [''124''])"
    by (simp add: seller_create_stocks_def normalize_count_10)
  have cp0: "seller_create_prices ?feed [''124''] = ([], [''124''])"
    by (simp add: seller_create_prices_def)
  have cp: "seller_create_prices ?feed [''123'', ''124''] = (?prices, [''123'', ''124''])"
    by (simp add: seller_create_prices_def price_conversion_def is_digit_def)
  have dv: "divide ?stocks 100 = Inr [?stocks]" by (rule divide_short) simp_all
  have dp: "divide ?prices 1000 = Inr [?prices]" by (rule divide_short) simp_all
  have run: "seller_run ?ok [''123'', ''124''] ?feed = [Seller_update_stocks ?stocks]"
    by (simp add: seller_run_def cs cp0 dv divide_Nil)
  have us: "seller_upload_stocks ?sremote ?ok ?feed = Some [Seller_update_stocks ?stocks]"
    by (simp add: seller_upload_stocks_def g cs dv)
  have up: "seller_upload_prices ?sremote ?ok ?feed = Some [Seller_update_price ?prices]"
    by (simp add: seller_upload_prices_def g cp dp)
  have mg1: "market_get_offer_ids ?fbs = Some [''123'']"
    using market_get_offer_ids_one_page[of ?fbs] by simp
  have mg2: "market_get_offer_ids ?dbs = Some []"
    using market_get_offer_ids_one_page[of ?dbs] by simp
  have ms: "market_create_stocks ''d1'' ?feed [''123''] ''w1'' = (Inr ?mstocks, [])"
    by (simp add: market_create_stocks_def normalize_count_10)
  have ms2: "market_create_stocks ''d2'' ?feed [] ''w2'' = (Inr [], [])"
    by (simp add: market_create_stocks_def)
  have mdv: "divide ?mstocks 2000 = Inr [?mstocks]" by (rule divide_short) simp_all
  have mm: "market_main ?fbs ?dbs ?ok' ''d1'' ''d2'' ?feed ''w1'' ''w2'' =
      Some [Market_update_stocks ?mstocks]"
    by (simp add: market_main_def market_campaign_def mg1 mg2 ms ms2 mdv divide_Nil)
  have mus: "market_upload_stocks ?fbs ?ok' ''d1'' ?feed ''w1'' = Some [Market_update_stocks ?mstocks]"
    by (simp add: market_upload_stocks_def mg1 ms mdv)
  have mcp: "market_create_prices ?feed [''123''] = (Inr ?mprices, [''123''])"
    by (simp add: market_create_prices_def price_conversion_def is_digit_def py_int_5990)
  have mdp: "divide ?mprices 500 = Inr [?mprices]" by (rule divide_short) simp_all
  have mup: "market_upload_prices ?fbs ?ok' ?feed = Some [Market_update_price ?mprices]"
    by (simp add: market_upload_prices_def mg1 mcp mdp)
  show ?thesis
    using batches_within_limits [of ?ok "[''123'', ''124'']" ?feed ?sremote
        "[Seller_update_stocks ?stocks]" "[Seller_update_price ?prices]" ?fbs ?dbs ?ok' "''d1''"
        "''d2''" "''w1''" "''w2''" "[Market_update_stocks ?mstocks]" ?fbs
        "[Market_update_stocks ?mstocks]" "[Market_update_price ?mprices]"]
      run us up mm mus mup
    by simp
qed

text \<open>
  Claim C6 as stated fails for \<^verbatim>\<open>seller.upload_prices\<close>, which chunks by 1000: with a
  thousand feed records that match, one price update of a thousand entries is sent.
\<close>

theorem upload_prices_batch_counterexample:
  "seller_upload_prices (\<lambda>k c. \<lparr>o_items = [''123''], o_total = 1, o_last_id = ''123''\<rparr>) (\<lambda>_. True)
     (replicate 1000 \<lparr>Kod = ''123'', Kolichestvo = ''10'', Tsena = ''5'990.00''\<rparr>) =
     Some [Seller_update_price
             (replicate 1000
                \<lparr>p_auto_action_enabled = ''UNKNOWN'', p_currency_code = ''RUB'', p_offer_id = ''123'',
                  p_old_price = ''0'', p_price = ''5990''\<rparr>)] \<and>
   \<not> length (replicate 1000
                \<lparr>p_auto_action_enabled = ''UNKNOWN'', p_currency_code = ''RUB'', p_offer_id = ''123'',
                  p_old_price = ''0'', p_price = ''5990''\<rparr>) \<le> 900"
proof -
  let ?remote = "\<lambda>(k::nat) (c::string). \<lparr>o_items = [''123''], o_total = 1, o_last_id = ''123''\<rparr>"
  let ?w = "\<lparr>Kod = ''123'', Kolichestvo = ''10'', Tsena = ''5'990.00''\<rparr>"
  let ?e = "\<lparr>p_auto_action_enabled = ''UNKNOWN'', p_currency_code = ''RUB'', p_offer_id = ''123'',
                  p_old_price = ''0'', p_price = ''5990''\<rparr>"
  have g: "seller_get_offer_ids ?remote = Some [''123'']"
    using seller_get_offer_ids_one_page[of ?remote] by simp
  have e: "ozon_price_entry ?w = ?e"
    by (simp add: ozon_price_entry_def price_conversion_def is_digit_def)
  have cp: "seller_create_prices (replicate 1000 ?w) [''123''] = (replicate 1000 ?e, [''123''])"
    by (simp add: seller_create_prices_eq e)
  have dv: "divide (replicate 1000 ?e) 1000 = Inr [replicate 1000 ?e]"
    by (rule divide_short) simp_all
  have "seller_upload_prices ?remote (\<lambda>_. True) (replicate 1000 ?w) =
      Some [Seller_update_price (replicate 1000 ?e)]"
    by (simp add: seller_upload_prices_def g cp dv)
  then show ?thesis by simp
qed

end
